theory Spec2Isabelle
  imports Main
begin

section \<open>Python values\<close>

text \<open>
  A Python \<open>str\<close> is a \<^typ>\<open>string\<close>: one \<^typ>\<open>char\<close> per character. All
  characters the two scripts inspect (the reserved set, \<open>_\<close>, \<open>.\<close>, \<open>/\<close>, the
  letters of \<open>.pdf\<close> and of \<open>attachment\<close>) are ASCII. A \<open>bytes\<close> value is a list of
  characters as well, kept apart from \<open>str\<close> by its constructor. An exception is
  a value carrying the text that \<open>str(e)\<close> prints.
\<close>

datatype exn = Exception string

datatype pyval = PyNone | PyStr string | PyBytes "char list"

text \<open>Truthiness, as \<open>if filename:\<close> tests it: \<open>None\<close>, \<open>''\<close> and \<open>b''\<close> are false.\<close>

fun truthy :: "pyval \<Rightarrow> bool" where
  "truthy PyNone = False"
| "truthy (PyStr s) = (s \<noteq> [])"
| "truthy (PyBytes b) = (b \<noteq> [])"

section \<open>Filename sanitization (both fetchers)\<close>

text \<open>
  The character class of the pattern \<^verbatim>\<open>r'[\\/*?:"<>|]'\<close>: backslash, slash, star,
  question mark, colon, double quote, less-than, greater-than, vertical bar.
\<close>

definition reserved :: "char list" where
  "reserved = [CHR 0x5C, CHR ''/'', CHR ''*'', CHR ''?'', CHR '':'', CHR 0x22,
               CHR ''<'', CHR ''>'', CHR ''|'']"

text \<open>
  \<open>re.sub(pattern, repl, s)\<close> for a pattern that is one character class: every
  character of the class is a match of length one, and each match is replaced by \<open>repl\<close>.
\<close>

definition re_sub_class :: "char list \<Rightarrow> string \<Rightarrow> string \<Rightarrow> string" where
  "re_sub_class cls repl s = concat (map (\<lambda>c. if c \<in> set cls then repl else [c]) s)"

definition default_name :: string where
  "default_name = ''unnamed_attachment.pdf''"

text \<open>
  \<open>clean_filename\<close> of \<open>email_pdf_retriever.py\<close>. A \<open>bytes\<close> argument is decoded first;
  \<open>bytes.decode()\<close> is the interpreter's and is taken as the parameter \<open>decode\<close>, which
  returns the text or the exception it raises.
\<close>

definition clean_filename_A :: "(char list \<Rightarrow> exn + string) \<Rightarrow> pyval \<Rightarrow> exn + string" where
  "clean_filename_A decode filename =
     (if truthy filename then
        (case filename of
           PyBytes b \<Rightarrow>
             (case decode b of
                Inl e \<Rightarrow> Inl e
              | Inr s \<Rightarrow> Inr (re_sub_class reserved ''_'' s))
         | PyStr s \<Rightarrow> Inr (re_sub_class reserved ''_'' s)
         | PyNone \<Rightarrow> Inr default_name)
      else Inr default_name)"

text \<open>
  \<open>clean_filename\<close> of \<open>zimbra_pdf_retriever.py\<close>. It has no decoding branch: a
  non-empty \<open>bytes\<close> argument reaches \<open>re.sub\<close> with a \<open>str\<close> pattern, which raises
  \<open>TypeError\<close>.
\<close>

definition clean_filename_B :: "pyval \<Rightarrow> exn + string" where
  "clean_filename_B filename =
     (if truthy filename then
        (case filename of
           PyBytes b \<Rightarrow> Inl (Exception ''cannot use a string pattern on a bytes-like object'')
         | PyStr s \<Rightarrow> Inr (re_sub_class reserved ''_'' s)
         | PyNone \<Rightarrow> Inr default_name)
      else Inr default_name)"

text \<open>The character-wise reading of the replacement, used to state the properties.\<close>

definition underscore_reserved :: "char \<Rightarrow> char" where
  "underscore_reserved c = (if c \<in> set reserved then CHR ''_'' else c)"

text \<open>
  A sample decoder for closed examples: \<open>bytes.decode()\<close> on 7-bit input, where UTF-8
  decoding is the identity.
\<close>

definition decode_ascii :: "char list \<Rightarrow> exn + string" where
  "decode_ascii b =
     (if list_all (\<lambda>c. (of_char c :: nat) < 128) b then Inr b
      else Inl (Exception ''UnicodeDecodeError''))"

section \<open>Formatting integers\<close>

text \<open>The decimal digits of a natural number, most significant first, as \<open>str\<close> prints them.\<close>

definition digit_char :: "nat \<Rightarrow> char" where
  "digit_char d = ''0123456789'' ! d"

fun dec_digits :: "nat \<Rightarrow> string" where
  "dec_digits n =
     (if n < 10 then [digit_char n] else dec_digits (n div 10) @ [digit_char (n mod 10)])"

declare dec_digits.simps [simp del]

text \<open>\<open>str(n)\<close> and the f-string field \<open>{n}\<close> for an \<open>int\<close>.\<close>

definition str_int :: "int \<Rightarrow> string" where
  "str_int n = (if n < 0 then ''-'' @ dec_digits (nat (- n)) else dec_digits (nat n))"

text \<open>The f-string field \<open>{n:02d}\<close>: sign-aware zero padding to a minimum width of two.\<close>

definition format_02d :: "int \<Rightarrow> string" where
  "format_02d n =
     (if n < 0
      then ''-'' @ replicate (1 - length (dec_digits (nat (- n)))) (CHR ''0'') @ dec_digits (nat (- n))
      else replicate (2 - length (dec_digits (nat n))) (CHR ''0'') @ dec_digits (nat n))"

text \<open>Reading a digit string back, used to show that \<open>str\<close> is injective.\<close>

definition digit_val :: "char \<Rightarrow> nat" where
  "digit_val c = of_char c - 48"

definition digits_val :: "string \<Rightarrow> nat" where
  "digits_val s = foldl (\<lambda>a c. 10 * a + digit_val c) 0 s"

section \<open>Strings, paths and the file system\<close>

text \<open>\<open>str.lower\<close> on the ASCII letters, which is all that the suffix test depends on.\<close>

definition lower_char :: "char \<Rightarrow> char" where
  "lower_char c =
     (case map_of (zip ''ABCDEFGHIJKLMNOPQRSTUVWXYZ'' ''abcdefghijklmnopqrstuvwxyz'') c of
        Some l \<Rightarrow> l
      | None \<Rightarrow> c)"

definition py_lower :: "string \<Rightarrow> string" where
  "py_lower s = map lower_char s"

definition endswith :: "string \<Rightarrow> string \<Rightarrow> bool" where
  "endswith s suffix = (length suffix \<le> length s \<and> drop (length s - length suffix) s = suffix)"

fun startswith :: "string \<Rightarrow> string \<Rightarrow> bool" where
  "startswith s [] = True"
| "startswith [] (p # ps) = False"
| "startswith (c # cs) (p # ps) = (c = p \<and> startswith cs ps)"

text \<open>\<open>needle in haystack\<close> for strings.\<close>

fun contains :: "string \<Rightarrow> string \<Rightarrow> bool" where
  "contains needle [] = (needle = [])"
| "contains needle (c # cs) = (startswith (c # cs) needle \<or> contains needle cs)"

text \<open>
  \<open>os.path\<close> is \<open>posixpath\<close>: the separator is \<open>/\<close>. \<open>os.path.join\<close> of two components.
\<close>

definition path_join :: "string \<Rightarrow> string \<Rightarrow> string" where
  "path_join a b =
     (if b \<noteq> [] \<and> hd b = CHR ''/'' then b
      else if a = [] \<or> last a = CHR ''/'' then a @ b
      else a @ ''/'' @ b)"

text \<open>\<open>str.rfind\<close> of one character: the highest index where it occurs, or \<open>-1\<close>.\<close>

definition rfind :: "char \<Rightarrow> string \<Rightarrow> int" where
  "rfind c p =
     (if c \<in> set p then int (length p) - 1 - int (length (takeWhile (\<lambda>x. x \<noteq> c) (rev p)))
      else - 1)"

text \<open>
  The loop of \<open>genericpath._splitext\<close> that skips leading dots: it scans from
  \<open>filenameIndex\<close> up to the last dot and answers whether some character before that dot
  is not a dot.
\<close>

function has_non_dot :: "string \<Rightarrow> nat \<Rightarrow> nat \<Rightarrow> bool" where
  "has_non_dot p filenameIndex dotIndex =
     (if filenameIndex < dotIndex then
        (if p ! filenameIndex \<noteq> CHR ''.'' then True
         else has_non_dot p (filenameIndex + 1) dotIndex)
      else False)"
  by pat_completeness auto
termination
  by (relation "measure (\<lambda>(p, i, d). d - i)") auto

declare has_non_dot.simps [simp del]

text \<open>
  \<open>os.path.splitext\<close>: the extension starts at the last dot of the last component, unless
  only dots precede it there.
\<close>

definition splitext :: "string \<Rightarrow> string \<times> string" where
  "splitext p =
     (let sepIndex = rfind (CHR ''/'') p;
          dotIndex = rfind (CHR ''.'') p
      in if dotIndex > sepIndex \<and> has_non_dot p (nat (sepIndex + 1)) (nat dotIndex)
         then (take (nat dotIndex) p, drop (nat dotIndex) p)
         else (p, []))"

text \<open>
  The file system is the finite list of the paths that exist, each with what it holds, the
  newest entry first. \<open>os.makedirs\<close> and \<open>open(path, "wb")\<close> are taken to succeed; the
  ancestors that \<open>makedirs\<close> creates on the way are not listed, since neither script ever
  tests one of them.
\<close>

datatype node = Directory | RegularFile "char list"

type_synonym filesystem = "(string \<times> node) list"

definition path_exists :: "filesystem \<Rightarrow> string \<Rightarrow> bool" where
  "path_exists fs p = (p \<in> set (map fst fs))"

definition makedirs :: "string \<Rightarrow> filesystem \<Rightarrow> filesystem" where
  "makedirs p fs = (p, Directory) # fs"

definition write_file :: "string \<Rightarrow> char list \<Rightarrow> filesystem \<Rightarrow> filesystem" where
  "write_file p data fs = (p, RegularFile data) # fs"

text \<open>What a run changes: the file system and the lines printed so far (oldest first).\<close>

record world =
  files :: filesystem
  out :: "string list"

definition print_line :: "string \<Rightarrow> world \<Rightarrow> world" where
  "print_line s w = w\<lparr>out := out w @ [s]\<rparr>"

definition debug_print :: "bool \<Rightarrow> string \<Rightarrow> world \<Rightarrow> world" where
  "debug_print dbg s w = (if dbg then print_line s w else w)"

fun exn_text :: "exn \<Rightarrow> string" where
  "exn_text (Exception s) = s"

text \<open>Lines 41-43 of both scripts: create the output directory when it is missing.\<close>

definition ensure_output_dir :: "string \<Rightarrow> world \<Rightarrow> world" where
  "ensure_output_dir out_dir w =
     (if \<not> path_exists (files w) out_dir
      then print_line (''Created directory: '' @ out_dir) (w\<lparr>files := makedirs out_dir (files w)\<rparr>)
      else w)"

definition py_truthy_int :: "int option \<Rightarrow> bool" where
  "py_truthy_int v = (case v of None \<Rightarrow> False | Some n \<Rightarrow> n \<noteq> 0)"

definition py_truthy_str :: "string option \<Rightarrow> bool" where
  "py_truthy_str v = (case v of None \<Rightarrow> False | Some s \<Rightarrow> s \<noteq> [])"

section \<open>Dates\<close>

record datetime =
  year :: int
  month :: int
  day :: int
  hour :: int
  minute :: int
  second :: int

text \<open>
  \<open>datetime - timedelta(days=n)\<close>, after CPython's \<open>datetime\<close> module: the date is taken to
  its proleptic Gregorian ordinal, the days are subtracted, and the ordinal is taken back
  to a date; the time of day is kept. Both constructors raise \<open>OverflowError\<close> out of range.
\<close>

definition is_leap :: "int \<Rightarrow> bool" where
  "is_leap y = (y mod 4 = 0 \<and> (y mod 100 \<noteq> 0 \<or> y mod 400 = 0))"

definition days_before_year :: "int \<Rightarrow> int" where
  "days_before_year y = (y - 1) * 365 + (y - 1) div 4 - (y - 1) div 100 + (y - 1) div 400"

definition days_in_month_table :: "int list" where
  "days_in_month_table = [31, 28, 31, 30, 31, 30, 31, 31, 30, 31, 30, 31]"

definition days_before_month_table :: "int list" where
  "days_before_month_table = [0, 31, 59, 90, 120, 151, 181, 212, 243, 273, 304, 334]"

definition days_before_month :: "int \<Rightarrow> int \<Rightarrow> int" where
  "days_before_month y m =
     days_before_month_table ! nat (m - 1) + (if m > 2 \<and> is_leap y then 1 else 0)"

definition ymd2ord :: "int \<Rightarrow> int \<Rightarrow> int \<Rightarrow> int" where
  "ymd2ord y m d = days_before_year y + days_before_month y m + d"

definition ord2ymd :: "int \<Rightarrow> int \<times> int \<times> int" where
  "ord2ymd ordinal =
     (let n = ordinal - 1;
          n400 = n div 146097; n = n mod 146097;
          n100 = n div 36524; n = n mod 36524;
          n4 = n div 1461; n = n mod 1461;
          n1 = n div 365; n = n mod 365;
          y = n400 * 400 + 1 + n100 * 100 + n4 * 4 + n1
      in if n1 = 4 \<or> n100 = 4 then (y - 1, 12, 31)
         else
           (let leapyear = (n1 = 3 \<and> (n4 \<noteq> 24 \<or> n100 = 3));
                m = (n + 50) div 32;
                preceding = days_before_month_table ! nat (m - 1)
                              + (if m > 2 \<and> leapyear then 1 else 0)
            in if preceding > n
               then (y, m - 1,
                     n - (preceding - (days_in_month_table ! nat (m - 2)
                                         + (if m - 1 = 2 \<and> leapyear then 1 else 0))) + 1)
               else (y, m, n - preceding + 1)))"

definition toordinal :: "datetime \<Rightarrow> int" where
  "toordinal d = ymd2ord (year d) (month d) (day d)"

definition minus_days :: "datetime \<Rightarrow> int \<Rightarrow> exn + datetime" where
  "minus_days d n =
     (if \<bar>n\<bar> > 999999999
      then Inl (Exception ''days out of range; must have magnitude <= 999999999'')
      else
        (let days = toordinal d - n
         in if 0 < days \<and> days \<le> 3652059
            then (case ord2ymd days of (y, m, dd) \<Rightarrow> Inr (d\<lparr>year := y, month := m, day := dd\<rparr>))
            else Inl (Exception ''date value out of range'')))"

definition month_abbr :: "string list" where
  "month_abbr = [''Jan'', ''Feb'', ''Mar'', ''Apr'', ''May'', ''Jun'',
                 ''Jul'', ''Aug'', ''Sep'', ''Oct'', ''Nov'', ''Dec'']"

text \<open>\<open>strftime("%d-%b-%Y")\<close> and \<open>strftime("%Y%m%d_%H%M%S")\<close> in the C locale.\<close>

definition strftime_d_b_Y :: "datetime \<Rightarrow> string" where
  "strftime_d_b_Y d =
     format_02d (day d) @ ''-'' @ month_abbr ! nat (month d - 1) @ ''-'' @ str_int (year d)"

definition strftime_stamp :: "datetime \<Rightarrow> string" where
  "strftime_stamp d =
     str_int (year d) @ format_02d (month d) @ format_02d (day d) @ ''_''
       @ format_02d (hour d) @ format_02d (minute d) @ format_02d (second d)"

section \<open>Fetcher B: zimbra_pdf_retriever.py\<close>

subsection \<open>Monthly folders\<close>

text \<open>Line 23: \<^verbatim>\<open>folder_name = f"{year}-{month:02d}"\<close>.\<close>

definition monthly_folder_name :: "datetime \<Rightarrow> string" where
  "monthly_folder_name email_date =
     str_int (year email_date) @ ''-'' @ format_02d (month email_date)"

definition get_monthly_folder :: "datetime \<Rightarrow> string \<Rightarrow> world \<Rightarrow> string \<times> world" where
  "get_monthly_folder email_date base_output_dir w =
     (let monthly_folder = path_join base_output_dir (monthly_folder_name email_date)
      in (monthly_folder,
          if \<not> path_exists (files w) monthly_folder
          then w\<lparr>files := makedirs monthly_folder (files w)\<rparr>
          else w))"

subsection \<open>The probe for a free path\<close>

text \<open>The path tried at a given counter value, lines 106-107.\<close>

definition candidate :: "string \<Rightarrow> string \<Rightarrow> string \<Rightarrow> nat \<Rightarrow> string" where
  "candidate monthly_folder base_name ext counter =
     path_join monthly_folder (base_name @ ''_'' @ str_int (int counter) @ ext)"

text \<open>
  Different counters give different paths, so only finitely many candidates exist in a
  file system; this is what makes the \<open>while\<close> loop of lines 105-108 terminate.
\<close>

lemma digit_val_digit_char: "d < 10 \<Longrightarrow> digit_val (digit_char d) = d"
proof -
  assume "d < 10"
  then have "d \<in> {0, 1, 2, 3, 4, 5, 6, 7, 8, 9}" by auto
  then show ?thesis
    by (auto simp: digit_val_def digit_char_def)
qed

lemma digits_val_snoc: "digits_val (s @ [c]) = 10 * digits_val s + digit_val c"
  by (simp add: digits_val_def)

lemma digits_val_dec_digits: "digits_val (dec_digits n) = n"
proof (induction n rule: dec_digits.induct)
  case (1 n)
  show ?case
  proof (cases "n < 10")
    case True
    then show ?thesis
      by (simp add: dec_digits.simps [of n] digits_val_def digit_val_digit_char)
  next
    case False
    then have "digits_val (dec_digits (n div 10)) = n div 10" using 1 by simp
    with False show ?thesis
      by (simp add: dec_digits.simps [of n] digits_val_snoc digit_val_digit_char)
  qed
qed

lemma dec_digits_inj: "dec_digits m = dec_digits n \<Longrightarrow> m = n"
  by (metis digits_val_dec_digits)

lemma str_int_nat_inj: "str_int (int m) = str_int (int n) \<Longrightarrow> m = n"
  by (simp add: str_int_def dec_digits_inj)

lemma path_join_inj:
  assumes "path_join a b = path_join a b'"
    and "(b \<noteq> [] \<and> hd b = CHR ''/'') = (b' \<noteq> [] \<and> hd b' = CHR ''/'')"
  shows "b = b'"
  using assms by (auto simp: path_join_def split: if_splits)

lemma candidate_inj:
  assumes "candidate f b e m = candidate f b e n"
  shows "m = n"
proof -
  let ?x = "\<lambda>k. b @ ''_'' @ str_int (int k) @ e"
  have hd_eq: "(?x m \<noteq> [] \<and> hd (?x m) = CHR ''/'') = (?x n \<noteq> [] \<and> hd (?x n) = CHR ''/'')"
    by (cases b) simp_all
  from assms have "?x m = ?x n"
    unfolding candidate_def using path_join_inj [OF _ hd_eq] by blast
  then show ?thesis by (simp add: str_int_nat_inj)
qed

lemma finite_candidates:
  assumes "finite P"
  shows "finite {k. candidate f b e k \<in> P}"
proof -
  have "inj (candidate f b e)" by (rule injI) (rule candidate_inj)
  then have "finite (candidate f b e -` P)" using assms by (rule finite_vimageI [rotated])
  then show ?thesis by (simp add: vimage_def)
qed

text \<open>
  Lines 104-108. The state of the loop is \<open>counter\<close> and \<open>final_path\<close>; the caller starts it
  with \<open>counter = 1\<close> and the plain path.
\<close>

function probe_free_path ::
  "filesystem \<Rightarrow> string \<Rightarrow> string \<Rightarrow> string \<Rightarrow> nat \<Rightarrow> string \<Rightarrow> string" where
  "probe_free_path fs monthly_folder base_name ext counter final_path =
     (if path_exists fs final_path
      then probe_free_path fs monthly_folder base_name ext (counter + 1)
             (candidate monthly_folder base_name ext counter)
      else final_path)"
  by pat_completeness auto
termination
proof (relation "measure (\<lambda>(fs, f, b, e, c, p).
         2 * card {k. c \<le> k \<and> candidate f b e k \<in> set (map fst fs)}
         + (if path_exists fs p then 1 else 0))")
  show "wf (measure (\<lambda>(fs, f, b, e, c, p).
         2 * card {k. c \<le> k \<and> candidate f b e k \<in> set (map fst fs)}
         + (if path_exists fs p then 1 else 0)))" by simp
next
  fix fs :: filesystem and f b e :: string and c :: nat and p :: string
  assume ex: "path_exists fs p"
  let ?P = "set (map fst fs)"
  let ?S = "\<lambda>c. {k. c \<le> k \<and> candidate f b e k \<in> ?P}"
  have fin: "finite (?S c)"
    using finite_candidates [of ?P f b e] by simp
  have sub: "?S (c + 1) \<subseteq> ?S c" by auto
  show "((fs, f, b, e, c + 1, candidate f b e c), (fs, f, b, e, c, p))
        \<in> measure (\<lambda>(fs, f, b, e, c, p).
             2 * card {k. c \<le> k \<and> candidate f b e k \<in> set (map fst fs)}
             + (if path_exists fs p then 1 else 0))"
  proof (cases "path_exists fs (candidate f b e c)")
    case True
    then have "c \<in> ?S c" "c \<notin> ?S (c + 1)" by (auto simp: path_exists_def)
    with sub have "?S (c + 1) \<subset> ?S c" by blast
    then have "card (?S (c + 1)) < card (?S c)" using fin by (rule psubset_card_mono [rotated])
    with ex True show ?thesis by simp
  next
    case False
    have "card (?S (c + 1)) \<le> card (?S c)" using fin sub by (rule card_mono)
    with ex False show ?thesis by simp
  qed
qed

declare probe_free_path.simps [simp del]

text \<open>Lines 102-108: the path under which an attachment is saved.\<close>

definition unique_path :: "filesystem \<Rightarrow> string \<Rightarrow> string \<Rightarrow> string" where
  "unique_path fs monthly_folder filename =
     (case splitext filename of
        (base_name, ext) \<Rightarrow>
          probe_free_path fs monthly_folder base_name ext 1 (path_join monthly_folder filename))"

subsection \<open>The mailbox and the download\<close>

text \<open>
  What \<open>imap_tools\<close> hands to the script. A message stream is a list whose entries are a
  parsed message or the exception that the generator raises at that point; an attachment
  entry is the attachment or the exception that reading its \<open>filename\<close> raises.
  An attachment carries its \<open>filename\<close>, its \<open>content_type\<close> and its \<open>payload\<close>; the script
  reads the first and the last. \<open>mb_fetch mb k q\<close> is what the \<open>k\<close>-th call of \<open>mailbox.fetch\<close>
  yields for the criteria \<open>q\<close> (\<open>None\<close>: the call without criteria); \<open>mb_query_text\<close> is \<open>str\<close>
  of the criteria object.
\<close>

record mail_attachment =
  att_filename :: string
  att_content_type :: string
  att_payload :: "char list"

record mail_message =
  msg_subject :: string
  msg_date :: datetime
  msg_attachments :: "(exn + mail_attachment) list"

datatype query = AND_seen bool | AND_subject string | AND_all "query list"

text \<open>
  \<^verbatim>\<open>AND(date_gte=value)\<close>. \<open>imap_tools\<close> takes a \<open>datetime.date\<close> here and nothing else: it tests
  \<^verbatim>\<open>type(value) is not datetime.date\<close> and raises \<open>TypeError\<close> when the test holds, as it does
  for a \<open>datetime.datetime\<close>. Line 66 hands it a \<open>datetime\<close>.
\<close>

definition date_gte_type_error :: exn where
  "date_gte_type_error =
     Exception ([CHR 0x22] @ ''date_gte'' @ [CHR 0x22] @ '' expected '' @ [CHR 0x22]
                @ ''datetime.date'' @ [CHR 0x22] @ '' value, '' @ [CHR 0x22] @ ''<class ''
                @ [CHR 0x27] @ ''datetime.datetime'' @ [CHR 0x27] @ ''>'' @ [CHR 0x22]
                @ '' received'')"

definition AND_date_gte :: "datetime \<Rightarrow> exn + query" where
  "AND_date_gte value = Inl date_gte_type_error"

record mailbox_B =
  mb_connect :: "exn option"
  mb_login :: "exn option"
  mb_fetch :: "nat \<Rightarrow> query option \<Rightarrow> (exn + mail_message) list"
  mb_logout :: "exn option"
  mb_now :: datetime
  mb_query_text :: "query option \<Rightarrow> string"

record args_B =
  email :: string
  password_B :: string
  server :: string
  output_dir_B :: string
  days_limit_B :: "int option"
  folder_name :: string
  only_unread :: bool
  search_term :: "string option"
  debug :: bool

text \<open>Line 97: \<^verbatim>\<open>att.filename.lower().endswith(".pdf")\<close>.\<close>

definition is_pdf_B :: "mail_attachment \<Rightarrow> bool" where
  "is_pdf_B att = endswith (py_lower (att_filename att)) ''.pdf''"

text \<open>
  Lines 96-114, the loop over the attachments of one message. The result is the exception
  that left the loop (if any), \<open>downloaded_files\<close> and the world.
\<close>

fun process_attachments_B ::
  "string \<Rightarrow> (exn + mail_attachment) list \<Rightarrow> string list \<Rightarrow> world
     \<Rightarrow> exn option \<times> string list \<times> world" where
  "process_attachments_B monthly_folder [] downloaded_files w = (None, downloaded_files, w)"
| "process_attachments_B monthly_folder (Inl e # atts) downloaded_files w =
     (Some e, downloaded_files, w)"
| "process_attachments_B monthly_folder (Inr att # atts) downloaded_files w =
     (if is_pdf_B att then
        (case clean_filename_B (PyStr (att_filename att)) of
           Inl e \<Rightarrow> (Some e, downloaded_files, w)
         | Inr filename \<Rightarrow>
             (let w1 = print_line (''  Downloading: '' @ filename) w;
                  final_path = unique_path (files w1) monthly_folder filename;
                  w2 = w1\<lparr>files := write_file final_path (att_payload att) (files w1)\<rparr>;
                  w3 = print_line (''  Saved: '' @ final_path) w2
              in process_attachments_B monthly_folder atts (downloaded_files @ [final_path]) w3))
      else process_attachments_B monthly_folder atts downloaded_files w)"

text \<open>Lines 84-114, the loop over the messages; \<open>i\<close> counts from 1.\<close>

fun process_messages_B ::
  "bool \<Rightarrow> string \<Rightarrow> nat \<Rightarrow> nat \<Rightarrow> (exn + mail_message) list \<Rightarrow> string list \<Rightarrow> world
     \<Rightarrow> exn option \<times> string list \<times> world" where
  "process_messages_B dbg out_dir total_messages i [] downloaded_files w =
     (None, downloaded_files, w)"
| "process_messages_B dbg out_dir total_messages i (Inl e # msgs) downloaded_files w =
     (Some e, downloaded_files, w)"
| "process_messages_B dbg out_dir total_messages i (Inr msg # msgs) downloaded_files w =
     (case clean_filename_B (PyStr (msg_subject msg)) of
        Inl e \<Rightarrow> (Some e, downloaded_files, w)
      | Inr subject \<Rightarrow>
          (let w1 = print_line (''Processing message '' @ str_int (int i) @ ''/''
                                @ str_int (int total_messages) @ '': '' @ subject) w;
               monthly_folder = fst (get_monthly_folder (msg_date msg) out_dir w1);
               w2 = snd (get_monthly_folder (msg_date msg) out_dir w1);
               w3 = debug_print dbg (''  Saving to monthly folder: '' @ monthly_folder) w2
           in case process_attachments_B monthly_folder (msg_attachments msg) downloaded_files w3 of
                (Some e, d, w4) \<Rightarrow> (Some e, d, w4)
              | (None, d, w4) \<Rightarrow> process_messages_B dbg out_dir total_messages (i + 1) msgs d w4))"

text \<open>Lines 59-72: the search criteria.\<close>

definition build_criteria_B :: "datetime \<Rightarrow> args_B \<Rightarrow> exn + query option" where
  "build_criteria_B now args =
     (let criteria = [];
          criteria = (if only_unread args then criteria @ [AND_seen False] else criteria);
          criteria = (case search_term args of
                        None \<Rightarrow> criteria
                      | Some s \<Rightarrow> if s \<noteq> [] then criteria @ [AND_subject s] else criteria)
      in case (case days_limit_B args of
                 None \<Rightarrow> Inr criteria
               | Some n \<Rightarrow>
                   if n \<noteq> 0 then
                     (case minus_days now n of
                        Inl e \<Rightarrow> Inl e
                      | Inr date \<Rightarrow>
                          (case AND_date_gte date of
                             Inl e \<Rightarrow> Inl e
                           | Inr c \<Rightarrow> Inr (criteria @ [c])))
                   else Inr criteria) of
           Inl e \<Rightarrow> Inl e
         | Inr criteria \<Rightarrow> Inr (if criteria \<noteq> [] then Some (AND_all criteria) else None))"

text \<open>Line 79: \<^verbatim>\<open>sum(1 for _ in messages)\<close> runs the generator to its end.\<close>

fun count_messages :: "(exn + mail_message) list \<Rightarrow> exn + nat" where
  "count_messages [] = Inr 0"
| "count_messages (Inl e # msgs) = Inl e"
| "count_messages (Inr m # msgs) =
     (case count_messages msgs of Inl e \<Rightarrow> Inl e | Inr n \<Rightarrow> Inr (n + 1))"

text \<open>Lines 48-118, the body of the \<open>try\<close>.\<close>

definition session_B :: "mailbox_B \<Rightarrow> args_B \<Rightarrow> world \<Rightarrow> exn option \<times> string list \<times> world" where
  "session_B mb args w =
     (let w1 = debug_print (debug args)
                 (''Connecting to '' @ server args @ '':993 with email '' @ email args) w
      in case mb_connect mb of
           Some e \<Rightarrow> (Some e, [], w1)
         | None \<Rightarrow>
        (case mb_login mb of
           Some e \<Rightarrow> (Some e, [], w1)
         | None \<Rightarrow>
        (let w2 = debug_print (debug args)
                    (''Successfully logged in to folder: '' @ folder_name args) w1
         in case build_criteria_B (mb_now mb) args of
              Inl e \<Rightarrow> (Some e, [], w2)
            | Inr search_criteria \<Rightarrow>
           (let w3 = debug_print (debug args)
                       (''Search criteria: '' @ mb_query_text mb search_criteria) w2
            in case count_messages (mb_fetch mb 0 search_criteria) of
                 Inl e \<Rightarrow> (Some e, [], w3)
               | Inr total_messages \<Rightarrow>
              (let messages = mb_fetch mb 1 search_criteria;
                   w4 = print_line (''Found '' @ str_int (int total_messages) @ '' messages'') w3
               in case process_messages_B (debug args) (output_dir_B args) total_messages 1
                         messages [] w4 of
                    (Some e, d, w5) \<Rightarrow> (Some e, d, w5)
                  | (None, d, w5) \<Rightarrow>
                      (case mb_logout mb of
                         Some e \<Rightarrow> (Some e, d, w5)
                       | None \<Rightarrow>
                           (None, d, debug_print (debug args) ''Logged out of IMAP server'' w5)))))))"

text \<open>Lines 29-125: the whole operation; it returns \<open>downloaded_files\<close>.\<close>

definition download_pdf_attachments_B :: "mailbox_B \<Rightarrow> args_B \<Rightarrow> world \<Rightarrow> string list \<times> world" where
  "download_pdf_attachments_B mb args w =
     (case session_B mb args (ensure_output_dir (output_dir_B args) w) of
        (raised, downloaded_files, w2) \<Rightarrow>
          (let w3 = (case raised of
                       None \<Rightarrow> w2
                     | Some e \<Rightarrow>
                         print_line ''Ensure the IMAP server, email, and password are correct.''
                           (print_line (''Error: '' @ exn_text e) w2))
           in (downloaded_files,
               print_line (''Downloaded '' @ str_int (int (length downloaded_files))
                           @ '' PDF attachments'') w3)))"

section \<open>Fetcher A: email_pdf_retriever.py\<close>

text \<open>\<open>repr\<close> of a \<open>bytes\<close> message id, as the f-strings print it.\<close>

definition bytes_repr :: "string \<Rightarrow> string" where
  "bytes_repr b = [CHR ''b'', CHR 0x27] @ b @ [CHR 0x27]"

text \<open>What \<open>f.write(None)\<close> raises.\<close>

definition none_payload_error :: exn where
  "none_payload_error =
     Exception (''a bytes-like object is required, not '' @ [CHR 0x27] @ ''NoneType'' @ [CHR 0x27])"

text \<open>
  What \<open>imaplib\<close> and \<open>email\<close> hand to the script. A MIME part carries the values the loop
  reads from it: \<open>str(part.get("Content-Disposition", ""))\<close>, \<open>part.get_content_type()\<close>,
  \<open>part.get_filename()\<close>, \<open>part.get_payload(decode=True)\<close>, and the clock reading
  \<open>datetime.now()\<close> at the moment the part is saved. An entry of \<open>walk\<close> is a part or the
  exception raised on reaching it. A message carries \<open>msg["Subject"]\<close>, the text that
  \<open>decode_header\<close> and the \<open>bytes\<close> decoding give for it (or the exception they raise),
  \<open>msg.is_multipart()\<close> and \<open>msg.walk()\<close>. \<open>imap_search\<close> answers with the status and
  \<open>messages[0].split()\<close>; \<open>imap_fetch\<close> answers with the status and the outcome of
  \<open>email.message_from_bytes(msg_data[0][1])\<close>; either may raise instead.
\<close>

record email_part =
  content_disposition :: string
  content_type :: string
  part_filename :: "string option"
  part_payload :: "char list option"
  saved_at :: datetime

record email_message =
  subject_header :: "string option"
  subject_decoded :: "exn + string"
  is_multipart :: bool
  walk :: "(exn + email_part) list"

record mailbox_A =
  imap_connect :: "exn option"
  imap_login :: "exn option"
  imap_select :: "exn option"
  imap_search :: "string \<Rightarrow> exn + (string \<times> string list)"
  imap_fetch :: "string \<Rightarrow> exn + (string \<times> (exn + email_message))"
  imap_logout :: "exn option"
  imap_now :: datetime

record args_A =
  email_address :: string
  password_A :: string
  imap_server :: string
  imap_port :: int
  search_criteria :: string
  output_dir_A :: string
  days_limit_A :: "int option"

text \<open>Line 111: the test for an attachment that is a PDF.\<close>

definition is_pdf_attachment_A :: "email_part \<Rightarrow> bool" where
  "is_pdf_attachment_A part =
     (contains ''attachment'' (content_disposition part) \<and> content_type part = ''application/pdf'')"

text \<open>Lines 107-124, the loop over the parts of one message.\<close>

fun process_parts_A ::
  "(char list \<Rightarrow> exn + string) \<Rightarrow> string \<Rightarrow> string \<Rightarrow> (exn + email_part) list \<Rightarrow> string list
     \<Rightarrow> world \<Rightarrow> exn option \<times> string list \<times> world" where
  "process_parts_A decode out_dir subject [] downloaded_files w = (None, downloaded_files, w)"
| "process_parts_A decode out_dir subject (Inl e # parts) downloaded_files w =
     (Some e, downloaded_files, w)"
| "process_parts_A decode out_dir subject (Inr part # parts) downloaded_files w =
     (if is_pdf_attachment_A part then
        (case part_filename part of
           None \<Rightarrow> process_parts_A decode out_dir subject parts downloaded_files w
         | Some filename \<Rightarrow>
             if filename \<noteq> [] then
               (case clean_filename_A decode (PyStr filename) of
                  Inl e \<Rightarrow> (Some e, downloaded_files, w)
                | Inr clean_name \<Rightarrow>
                    (let timestamp = strftime_stamp (saved_at part);
                         unique_filename = subject @ ''_'' @ timestamp @ ''_'' @ clean_name;
                         filepath = path_join out_dir unique_filename
                     in case part_payload part of
                          None \<Rightarrow>
                            (Some none_payload_error, downloaded_files,
                             w\<lparr>files := write_file filepath [] (files w)\<rparr>)
                        | Some data \<Rightarrow>
                            process_parts_A decode out_dir subject parts
                              (downloaded_files @ [filepath])
                              (print_line (''Downloaded: '' @ filepath)
                                 (w\<lparr>files := write_file filepath data (files w)\<rparr>))))
             else process_parts_A decode out_dir subject parts downloaded_files w)
      else process_parts_A decode out_dir subject parts downloaded_files w)"

text \<open>Lines 95-103: the subject used in the file names.\<close>

definition subject_A :: "(char list \<Rightarrow> exn + string) \<Rightarrow> email_message \<Rightarrow> exn + string" where
  "subject_A decode msg =
     (if py_truthy_str (subject_header msg)
      then (case subject_decoded msg of
              Inl e \<Rightarrow> Inl e
            | Inr s \<Rightarrow> clean_filename_A decode (PyStr s))
      else Inr ''no_subject'')"

text \<open>Lines 81-124, the body of the \<open>try\<close> for one message id; \<open>i\<close> counts from 0.\<close>

definition process_message_A ::
  "(char list \<Rightarrow> exn + string) \<Rightarrow> mailbox_A \<Rightarrow> string \<Rightarrow> nat \<Rightarrow> nat \<Rightarrow> string \<Rightarrow> string list
     \<Rightarrow> world \<Rightarrow> exn option \<times> string list \<times> world" where
  "process_message_A decode mb out_dir total_messages i message_id downloaded_files w =
     (let w1 = print_line (''Processing message '' @ str_int (int i + 1) @ ''/''
                           @ str_int (int total_messages) @ ''...'') w
      in case imap_fetch mb message_id of
           Inl e \<Rightarrow> (Some e, downloaded_files, w1)
         | Inr (status, parsed) \<Rightarrow>
             if status \<noteq> ''OK''
             then (None, downloaded_files,
                   print_line (''Error fetching message '' @ bytes_repr message_id) w1)
             else
               (case parsed of
                  Inl e \<Rightarrow> (Some e, downloaded_files, w1)
                | Inr msg \<Rightarrow>
                    (case subject_A decode msg of
                       Inl e \<Rightarrow> (Some e, downloaded_files, w1)
                     | Inr subject \<Rightarrow>
                         if is_multipart msg
                         then process_parts_A decode out_dir subject (walk msg) downloaded_files w1
                         else (None, downloaded_files, w1))))"

text \<open>Lines 79-126: the loop over the message ids with its \<open>except\<close> clause.\<close>

fun process_messages_A ::
  "(char list \<Rightarrow> exn + string) \<Rightarrow> mailbox_A \<Rightarrow> string \<Rightarrow> nat \<Rightarrow> nat \<Rightarrow> string list \<Rightarrow> string list
     \<Rightarrow> world \<Rightarrow> string list \<times> world" where
  "process_messages_A decode mb out_dir total_messages i [] downloaded_files w =
     (downloaded_files, w)"
| "process_messages_A decode mb out_dir total_messages i (message_id # ids) downloaded_files w =
     (case process_message_A decode mb out_dir total_messages i message_id downloaded_files w of
        (None, d, w1) \<Rightarrow> process_messages_A decode mb out_dir total_messages (i + 1) ids d w1
      | (Some e, d, w1) \<Rightarrow>
          process_messages_A decode mb out_dir total_messages (i + 1) ids d
            (print_line (''Error processing message '' @ bytes_repr message_id @ '': ''
                         @ exn_text e) w1))"

text \<open>Lines 59-62: the search criteria sent to the server.\<close>

definition search_criteria_A :: "datetime \<Rightarrow> args_A \<Rightarrow> exn + string" where
  "search_criteria_A now args =
     (case days_limit_A args of
        None \<Rightarrow> Inr (search_criteria args)
      | Some n \<Rightarrow>
          if n \<noteq> 0 then
            (case minus_days now n of
               Inl e \<Rightarrow> Inl e
             | Inr bound \<Rightarrow>
                 Inr (''(SINCE '' @ strftime_d_b_Y bound @ '') '' @ search_criteria args))
          else Inr (search_criteria args))"

text \<open>
  Lines 30-132: the whole operation. \<open>Inr\<close> is the returned list; \<open>Inl\<close> is an exception that
  leaves the function, raised by a call outside every \<open>try\<close>.
\<close>

definition download_pdf_attachments_A ::
  "(char list \<Rightarrow> exn + string) \<Rightarrow> mailbox_A \<Rightarrow> args_A \<Rightarrow> world \<Rightarrow> (exn + string list) \<times> world" where
  "download_pdf_attachments_A decode mb args w =
     (let w1 = ensure_output_dir (output_dir_A args) w
      in case (case imap_connect mb of Some e \<Rightarrow> Some e | None \<Rightarrow> imap_login mb) of
           Some e \<Rightarrow> (Inr [], print_line (''Error connecting to mail server: '' @ exn_text e) w1)
         | None \<Rightarrow>
        (let w2 = print_line (''Successfully connected to '' @ imap_server args) w1
         in case imap_select mb of
              Some e \<Rightarrow> (Inl e, w2)
            | None \<Rightarrow>
           (case search_criteria_A (imap_now mb) args of
              Inl e \<Rightarrow> (Inl e, w2)
            | Inr criteria \<Rightarrow>
           (case imap_search mb criteria of
              Inl e \<Rightarrow> (Inl e, w2)
            | Inr (status, message_ids) \<Rightarrow>
                if status \<noteq> ''OK'' then
                  (case imap_logout mb of
                     Some e \<Rightarrow> (Inl e, print_line ''No messages found!'' w2)
                   | None \<Rightarrow> (Inr [], print_line ''No messages found!'' w2))
                else
                  (let total_messages = length message_ids;
                       w3 = print_line (''Found '' @ str_int (int total_messages)
                                        @ '' messages matching criteria'') w2
                   in case process_messages_A decode mb (output_dir_A args) total_messages 0
                             message_ids [] w3 of
                        (downloaded_files, w4) \<Rightarrow>
                          (case imap_logout mb of
                             Some e \<Rightarrow> (Inl e, w4)
                           | None \<Rightarrow>
                               (Inr downloaded_files,
                                print_line (''Downloaded '' @ str_int (int (length downloaded_files))
                                            @ '' PDF attachments'') w4)))))))"

section \<open>Message dates and the date bound\<close>

text \<open>\<open>a\<close> is dated before the calendar day of \<open>b\<close>.\<close>

definition date_before :: "datetime \<Rightarrow> datetime \<Rightarrow> bool" where
  "date_before a b =
     (year a < year b
      \<or> year a = year b \<and> (month a < month b \<or> month a = month b \<and> day a < day b))"

section \<open>A reference server for \<open>SEARCH SINCE\<close>\<close>

text \<open>
  Fetcher A leaves the selection of the messages by date to the IMAP server. RFC 3501
  (section 6.4.4) defines the search key \<open>SINCE date\<close> as the "messages whose internal date
  (disregarding time and timezone) is within or later than the specified date", the date being
  written \<open>dd-Mon-yyyy\<close>. The reference server holds a list of messages. It reads a leading
  parenthesised \<open>SINCE\<close> key from the search string, answers with the numbers of the stored
  messages that the key and the rest of the criteria select, and hands out a stored message
  when it is fetched. How a criterion other than \<open>SINCE\<close> selects is the parameter
  \<open>key_matches\<close>.
\<close>

definition is_digit :: "char \<Rightarrow> bool" where
  "is_digit c = (c \<in> set ''0123456789'')"

definition parse_number :: "string \<Rightarrow> nat option" where
  "parse_number s = (if s \<noteq> [] \<and> list_all is_digit s then Some (digits_val s) else None)"

definition month_number :: "string \<Rightarrow> int option" where
  "month_number s = map_of (zip month_abbr [1, 2, 3, 4, 5, 6, 7, 8, 9, 10, 11, 12]) s"

definition parse_date :: "string \<Rightarrow> (int \<times> int \<times> int) option" where
  "parse_date s =
     (if length s = 11 \<and> s ! 2 = CHR ''-'' \<and> s ! 6 = CHR ''-''
      then (case parse_number (take 2 s) of
              None \<Rightarrow> None
            | Some d \<Rightarrow>
                (case month_number (take 3 (drop 3 s)) of
                   None \<Rightarrow> None
                 | Some m \<Rightarrow>
                     (case parse_number (drop 7 s) of
                        None \<Rightarrow> None
                      | Some y \<Rightarrow> Some (int y, m, int d))))
      else None)"

definition parse_since :: "string \<Rightarrow> ((int \<times> int \<times> int) \<times> string) option" where
  "parse_since criteria =
     (if take 7 criteria = ''(SINCE '' \<and> take 2 (drop 18 criteria) = '') ''
      then (case parse_date (take 11 (drop 7 criteria)) of
              None \<Rightarrow> None
            | Some date \<Rightarrow> Some (date, drop 20 criteria))
      else None)"

record stored_message =
  message_number :: string
  internal_date :: datetime
  fetched :: "exn + (string \<times> (exn + email_message))"

definition on_or_after :: "datetime \<Rightarrow> int \<times> int \<times> int \<Rightarrow> bool" where
  "on_or_after d date =
     (case date of
        (y, m, dd) \<Rightarrow>
          \<not> (year d < y \<or> year d = y \<and> (month d < m \<or> month d = m \<and> day d < dd)))"

definition search_selects ::
  "(string \<Rightarrow> stored_message \<Rightarrow> bool) \<Rightarrow> string \<Rightarrow> stored_message \<Rightarrow> bool" where
  "search_selects key_matches criteria m =
     (case parse_since criteria of
        Some (date, rest) \<Rightarrow> on_or_after (internal_date m) date \<and> key_matches rest m
      | None \<Rightarrow> key_matches criteria m)"

definition reference_server ::
  "(string \<Rightarrow> stored_message \<Rightarrow> bool) \<Rightarrow> stored_message list \<Rightarrow> datetime \<Rightarrow> mailbox_A" where
  "reference_server key_matches store now =
     \<lparr>imap_connect = None, imap_login = None, imap_select = None,
      imap_search = (\<lambda>criteria.
         Inr (''OK'', map message_number (filter (search_selects key_matches criteria) store))),
      imap_fetch = (\<lambda>message_id.
         case find (\<lambda>m. message_number m = message_id) store of
           Some m \<Rightarrow> fetched m
         | None \<Rightarrow> Inr (''NO'', Inl (Exception ''no such message''))),
      imap_logout = None, imap_now = now\<rparr>"

section \<open>Messages that raise (Fetcher B)\<close>




section \<open>Sample data for closed examples\<close>

definition sample_attachment :: "string \<Rightarrow> mail_attachment" where
  "sample_attachment data =
     \<lparr>att_filename = ''name.pdf'', att_content_type = ''application/pdf'', att_payload = data\<rparr>"

definition dot_pdf_attachment :: "string \<Rightarrow> mail_attachment" where
  "dot_pdf_attachment data =
     \<lparr>att_filename = ''.pdf'', att_content_type = ''application/pdf'', att_payload = data\<rparr>"

definition sample_clock :: datetime where
  "sample_clock = \<lparr>year = 2025, month = 5, day = 3, hour = 10, minute = 0, second = 0\<rparr>"

definition sample_part :: "string \<Rightarrow> string \<Rightarrow> string option \<Rightarrow> email_part" where
  "sample_part disposition ctype name =
     \<lparr>content_disposition = disposition, content_type = ctype, part_filename = name,
      part_payload = Some ''data'', saved_at = sample_clock\<rparr>"

definition sample_message_A :: email_message where
  "sample_message_A =
     \<lparr>subject_header = Some ''Invoice'', subject_decoded = Inr ''Invoice'', is_multipart = True,
      walk = [Inr (sample_part '''' ''multipart/mixed'' None),
              Inr (sample_part ''attachment; filename=x.png'' ''image/png'' (Some ''x.png'')),
              Inr (sample_part ''attachment; filename=x.pdf'' ''application/pdf'' (Some ''x.pdf'')),
              Inr (sample_part ''attachment; filename=n.txt'' ''text/plain'' (Some ''n.txt''))]\<rparr>"

definition sample_mailbox_A :: mailbox_A where
  "sample_mailbox_A =
     \<lparr>imap_connect = None, imap_login = None, imap_select = None,
      imap_search = (\<lambda>criteria. Inr (''OK'', [''1''])),
      imap_fetch = (\<lambda>message_id. Inr (''OK'', Inr sample_message_A)),
      imap_logout = None, imap_now = sample_clock\<rparr>"

definition sample_args_A :: args_A where
  "sample_args_A =
     \<lparr>email_address = ''me@example.org'', password_A = ''secret'', imap_server = ''imap.gmail.com'',
      imap_port = 993, search_criteria = ''ALL'', output_dir_A = ''pdfs'', days_limit_A = None\<rparr>"

definition sample_message_B :: mail_message where
  "sample_message_B =
     \<lparr>msg_subject = ''Invoice'', msg_date = sample_clock,
      msg_attachments =
        [Inr \<lparr>att_filename = ''photo.png'', att_content_type = ''image/png'', att_payload = ''PNG''\<rparr>,
         Inr (sample_attachment ''A''),
         Inr \<lparr>att_filename = ''notes.txt'', att_content_type = ''text/plain'',
              att_payload = ''TXT''\<rparr>]\<rparr>"

definition sample_mailbox_B :: mailbox_B where
  "sample_mailbox_B =
     \<lparr>mb_connect = None, mb_login = None, mb_fetch = (\<lambda>k q. [Inr sample_message_B]),
      mb_logout = None, mb_now = sample_clock, mb_query_text = (\<lambda>q. ''ALL'')\<rparr>"

definition sample_args_B :: args_B where
  "sample_args_B =
     \<lparr>email = ''me@example.org'', password_B = ''secret'', server = ''imap.example.org'',
      output_dir_B = ''out'', days_limit_B = None, folder_name = ''INBOX'', only_unread = False,
      search_term = None, debug = False\<rparr>"

definition empty_world :: world where
  "empty_world = \<lparr>files = [], out = []\<rparr>"

definition image_named_pdf :: mail_attachment where
  "image_named_pdf =
     \<lparr>att_filename = ''scan.pdf'', att_content_type = ''image/png'', att_payload = ''PNG''\<rparr>"

definition image_mailbox_B :: mailbox_B where
  "image_mailbox_B =
     sample_mailbox_B
       \<lparr>mb_fetch := \<lambda>k q. [Inr (sample_message_B\<lparr>msg_attachments := [Inr image_named_pdf]\<rparr>)]\<rparr>"






text \<open>
  A run of Fetcher A at 18:00 on 15 January 2025 with \<open>days_limit = 7\<close>. The mailbox
  holds message 1, dated 8 January 2025, 09:00. The server answers the query
  \<open>(SINCE 08-Jan-2025) ALL\<close> with message 1, as RFC 3501 asks of \<open>SINCE\<close>: it selects
  the messages "whose internal date (disregarding time and timezone) is within or later
  than the specified date".
\<close>

definition run_clock :: datetime where
  "run_clock = \<lparr>year = 2025, month = 1, day = 15, hour = 18, minute = 0, second = 0\<rparr>"

definition message_1_date :: datetime where
  "message_1_date = \<lparr>year = 2025, month = 1, day = 8, hour = 9, minute = 0, second = 0\<rparr>"

definition since_message_A :: email_message where
  "since_message_A =
     \<lparr>subject_header = Some ''Invoice'', subject_decoded = Inr ''Invoice'', is_multipart = True,
      walk = [Inr \<lparr>content_disposition = ''attachment; filename=x.pdf'',
                   content_type = ''application/pdf'', part_filename = Some ''x.pdf'',
                   part_payload = Some ''data'', saved_at = run_clock\<rparr>]\<rparr>"

definition since_mailbox_A :: mailbox_A where
  "since_mailbox_A =
     \<lparr>imap_connect = None, imap_login = None, imap_select = None,
      imap_search = (\<lambda>criteria.
         if criteria = ''(SINCE 08-Jan-2025) ALL'' then Inr (''OK'', [''1''])
         else Inr (''OK'', [])),
      imap_fetch = (\<lambda>message_id. Inr (''OK'', Inr since_message_A)),
      imap_logout = None, imap_now = run_clock\<rparr>"

definition since_args_A :: args_A where
  "since_args_A = sample_args_A\<lparr>days_limit_A := Some 7\<rparr>"

definition since_dates :: "string \<Rightarrow> datetime" where
  "since_dates message_id =
     (if message_id = ''1'' then message_1_date else message_1_date\<lparr>day := 7\<rparr>)"

text \<open>
  The store of a reference server: three messages with one PDF each, dated 7 January 23:59,
  8 January 09:00 and 14 January 08:00 of 2025.
\<close>

definition week_message :: "string \<Rightarrow> email_message" where
  "week_message subject =
     \<lparr>subject_header = Some subject, subject_decoded = Inr subject, is_multipart = True,
      walk = [Inr \<lparr>content_disposition = ''attachment; filename=x.pdf'',
                   content_type = ''application/pdf'', part_filename = Some ''x.pdf'',
                   part_payload = Some ''data'', saved_at = run_clock\<rparr>]\<rparr>"

definition week_store :: "stored_message list" where
  "week_store =
     [\<lparr>message_number = ''1'',
       internal_date = \<lparr>year = 2025, month = 1, day = 7, hour = 23, minute = 59, second = 0\<rparr>,
       fetched = Inr (''OK'', Inr (week_message ''Old''))\<rparr>,
      \<lparr>message_number = ''2'', internal_date = message_1_date,
       fetched = Inr (''OK'', Inr (week_message ''Week''))\<rparr>,
      \<lparr>message_number = ''3'',
       internal_date = \<lparr>year = 2025, month = 1, day = 14, hour = 8, minute = 0, second = 0\<rparr>,
       fetched = Inr (''OK'', Inr (week_message ''New''))\<rparr>]"

section \<open>Mailboxes without their non-PDF attachments\<close>

text \<open>The entries of a message that remain when every attachment that is not a PDF is
  taken away; an entry that raises stays.\<close>

definition pdf_or_raises_A :: "exn + email_part \<Rightarrow> bool" where
  "pdf_or_raises_A x = (case x of Inl e \<Rightarrow> True | Inr part \<Rightarrow> content_type part = ''application/pdf'')"

definition pdf_or_raises_B :: "exn + mail_attachment \<Rightarrow> bool" where
  "pdf_or_raises_B x = (case x of Inl e \<Rightarrow> True | Inr att \<Rightarrow> is_pdf_B att)"

definition without_non_pdf_A :: "mailbox_A \<Rightarrow> mailbox_A" where
  "without_non_pdf_A mb =
     mb\<lparr>imap_fetch := \<lambda>message_id.
          map_sum id (map_prod id (map_sum id (\<lambda>msg. msg\<lparr>walk := filter pdf_or_raises_A (walk msg)\<rparr>)))
            (imap_fetch mb message_id)\<rparr>"

definition without_non_pdf_B :: "mailbox_B \<Rightarrow> mailbox_B" where
  "without_non_pdf_B mb =
     mb\<lparr>mb_fetch := \<lambda>k q.
          map (map_sum id (\<lambda>msg. msg\<lparr>msg_attachments := filter pdf_or_raises_B (msg_attachments msg)\<rparr>))
            (mb_fetch mb k q)\<rparr>"

section \<open>What one message contributes (Fetcher A)\<close>

text \<open>The paths that one message of Fetcher A adds to the returned list.\<close>

definition message_files_A :: "(char list \<Rightarrow> exn + string) \<Rightarrow> mailbox_A \<Rightarrow> string \<Rightarrow> string \<Rightarrow> string list" where
  "message_files_A decode mb out_dir message_id =
     fst (snd (process_message_A decode mb out_dir 0 0 message_id [] empty_world))"

text \<open>The paths Fetcher A can save the parts of one message under: one for each part that
  carries a non-empty filename, built from that filename.\<close>

definition named_part_paths :: "string \<Rightarrow> string \<Rightarrow> (exn + email_part) list \<Rightarrow> string set" where
  "named_part_paths out_dir subject parts =
     {path_join out_dir
        (subject @ ''_'' @ strftime_stamp (saved_at part) @ ''_'' @ map underscore_reserved filename)
      | part filename. Inr part \<in> set parts \<and> part_filename part = Some filename \<and> filename \<noteq> []}"

section \<open>Unfolding the definitions on closed examples\<close>

lemmas eval_defs =
  download_pdf_attachments_A_def download_pdf_attachments_B_def session_B_def
  process_message_A_def subject_A_def search_criteria_A_def build_criteria_B_def
  is_pdf_attachment_A_def is_pdf_B_def clean_filename_A_def clean_filename_B_def
  re_sub_class_def reserved_def ensure_output_dir_def path_exists_def makedirs_def write_file_def
  print_line_def debug_print_def py_truthy_str_def py_truthy_int_def
  strftime_stamp_def str_int_def format_02d_def dec_digits.simps digit_char_def
  path_join_def endswith_def py_lower_def lower_char_def get_monthly_folder_def
  monthly_folder_name_def unique_path_def splitext_def rfind_def has_non_dot.simps
  probe_free_path.simps candidate_def Let_def bytes_repr_def

section \<open>Properties of the sanitizer\<close>

lemma re_sub_class_single: "re_sub_class cls [r] s = map (\<lambda>c. if c \<in> set cls then r else c) s"
  by (induction s) (simp_all add: re_sub_class_def)

lemma re_sub_reserved: "re_sub_class reserved ''_'' s = map underscore_reserved s"
  unfolding underscore_reserved_def by (rule re_sub_class_single)

lemma underscore_not_reserved: "CHR ''_'' \<notin> set reserved"
  by (simp add: reserved_def)

lemma underscore_reserved_clean: "underscore_reserved c \<notin> set reserved"
  using underscore_not_reserved by (simp add: underscore_reserved_def)

lemma underscore_reserved_id: "c \<notin> set reserved \<Longrightarrow> underscore_reserved c = c"
  by (simp add: underscore_reserved_def)

lemma map_underscore_reserved_clean: "set (map underscore_reserved s) \<inter> set reserved = {}"
  using underscore_reserved_clean by auto

lemma map_underscore_reserved_id:
  "set s \<inter> set reserved = {} \<Longrightarrow> map underscore_reserved s = s"
  by (induction s) (simp_all add: underscore_reserved_id)

lemma default_name_clean: "set default_name \<inter> set reserved = {}"
  by (simp add: default_name_def reserved_def)

lemma clean_filename_A_str:
  "s \<noteq> [] \<Longrightarrow> clean_filename_A decode (PyStr s) = Inr (map underscore_reserved s)"
  by (simp add: clean_filename_A_def re_sub_reserved)

lemma clean_filename_B_str:
  "s \<noteq> [] \<Longrightarrow> clean_filename_B (PyStr s) = Inr (map underscore_reserved s)"
  by (simp add: clean_filename_B_def re_sub_reserved)

lemma clean_filename_A_result_clean:
  assumes "clean_filename_A decode v = Inr r"
  shows "set r \<inter> set reserved = {}"
proof -
  from assms have "r = default_name \<or> (\<exists>s. r = map underscore_reserved s)"
    by (auto simp: clean_filename_A_def re_sub_reserved split: if_splits pyval.splits sum.splits)
  then show ?thesis
    using map_underscore_reserved_clean default_name_clean by metis
qed

lemma clean_filename_B_result_clean:
  assumes "clean_filename_B v = Inr r"
  shows "set r \<inter> set reserved = {}"
proof -
  from assms have "r = default_name \<or> (\<exists>s. r = map underscore_reserved s)"
    by (auto simp: clean_filename_B_def re_sub_reserved split: if_splits pyval.splits)
  then show ?thesis
    using map_underscore_reserved_clean default_name_clean by metis
qed

lemma clean_filename_A_empty_result:
  assumes "clean_filename_A decode v = Inr []"
  shows "\<exists>b. v = PyBytes b \<and> b \<noteq> [] \<and> decode b = Inr []"
  using assms
  by (cases v)
     (auto simp: clean_filename_A_def re_sub_reserved default_name_def
           split: if_splits sum.splits)

lemma clean_filename_B_result_nonempty: "clean_filename_B v = Inr r \<Longrightarrow> r \<noteq> []"
  by (cases v) (auto simp: clean_filename_B_def re_sub_reserved default_name_def split: if_splits)

text \<open>
  C1. For every string that contains a reserved character, both sanitizers return the
  string in which each reserved character is replaced by an underscore and every other
  character is kept in place; the returned string contains no reserved character.
\<close>

theorem clean_filename_replaces_reserved:
  assumes "set s \<inter> set reserved \<noteq> {}"
  shows "clean_filename_A decode (PyStr s) = Inr (map underscore_reserved s)
       \<and> clean_filename_B (PyStr s) = Inr (map underscore_reserved s)
       \<and> length (map underscore_reserved s) = length s
       \<and> set (map underscore_reserved s) \<inter> set reserved = {}"
proof -
  from assms have "s \<noteq> []" by auto
  then show ?thesis
    using map_underscore_reserved_clean [of s]
    by (simp add: clean_filename_A_str clean_filename_B_str)
qed

theorem clean_filename_replaces_reserved_witness:
  "clean_filename_A decode_ascii (PyStr ''a/b:c*d.pdf'') = Inr ''a_b_c_d.pdf''
 \<and> clean_filename_B (PyStr ''a/b:c*d.pdf'') = Inr ''a_b_c_d.pdf''
 \<and> set ''a_b_c_d.pdf'' \<inter> set reserved = {}"
proof -
  have h: "set ''a/b:c*d.pdf'' \<inter> set reserved \<noteq> {}"
    by (simp add: reserved_def)
  show ?thesis
    using clean_filename_replaces_reserved [OF h, of decode_ascii]
    by (simp add: underscore_reserved_def reserved_def)
qed

text \<open>
  C6, as stated, fails at the empty string: it has no reserved character, and both
  sanitizers return the default name for it instead of returning it unchanged.
\<close>

theorem clean_filename_empty_not_unchanged:
  "set '''' \<inter> set reserved = {}
 \<and> clean_filename_A decode_ascii (PyStr '''') \<noteq> Inr ''''
 \<and> clean_filename_B (PyStr '''') \<noteq> Inr ''''"
  by (simp add: clean_filename_A_def clean_filename_B_def default_name_def)

text \<open>
  C6, amended. Both sanitizers return every non-empty name without reserved characters
  unchanged, and for every argument (absent, text or bytes) sanitizing the result again
  gives the same result; when the first call raises, so does the composition. The
  decoder is any one that, like UTF-8 decoding, yields non-empty text for non-empty bytes.
\<close>

theorem clean_filename_idempotent:
  assumes "\<And>b. b \<noteq> [] \<Longrightarrow> decode b \<noteq> Inr []"
  shows
  "(s \<noteq> [] \<and> set s \<inter> set reserved = {} \<longrightarrow>
      clean_filename_A decode (PyStr s) = Inr s \<and> clean_filename_B (PyStr s) = Inr s)
 \<and> (case clean_filename_A decode v of Inl e \<Rightarrow> Inl e | Inr r \<Rightarrow> clean_filename_A decode (PyStr r))
      = clean_filename_A decode v
 \<and> (case clean_filename_B v of Inl e \<Rightarrow> Inl e | Inr r \<Rightarrow> clean_filename_B (PyStr r))
      = clean_filename_B v"
proof (intro conjI impI)
  assume a: "s \<noteq> [] \<and> set s \<inter> set reserved = {}"
  then show "clean_filename_A decode (PyStr s) = Inr s"
    by (simp add: clean_filename_A_str map_underscore_reserved_id)
  from a show "clean_filename_B (PyStr s) = Inr s"
    by (simp add: clean_filename_B_str map_underscore_reserved_id)
next
  show "(case clean_filename_A decode v of Inl e \<Rightarrow> Inl e
         | Inr r \<Rightarrow> clean_filename_A decode (PyStr r)) = clean_filename_A decode v"
  proof (cases "clean_filename_A decode v")
    case (Inl e)
    then show ?thesis by simp
  next
    case (Inr r)
    have c: "set r \<inter> set reserved = {}"
      using Inr by (rule clean_filename_A_result_clean)
    show ?thesis
    proof (cases "r = []")
      case True
      with Inr obtain b where "v = PyBytes b" "b \<noteq> []" "decode b = Inr []"
        using clean_filename_A_empty_result [of decode v] by auto
      with assms show ?thesis by blast
    next
      case False
      with Inr c show ?thesis
        by (simp add: clean_filename_A_str map_underscore_reserved_id)
    qed
  qed
next
  show "(case clean_filename_B v of Inl e \<Rightarrow> Inl e
         | Inr r \<Rightarrow> clean_filename_B (PyStr r)) = clean_filename_B v"
  proof (cases "clean_filename_B v")
    case (Inl e)
    then show ?thesis by simp
  next
    case (Inr r)
    have "set r \<inter> set reserved = {}" "r \<noteq> []"
      using Inr clean_filename_B_result_clean clean_filename_B_result_nonempty by blast+
    with Inr show ?thesis
      by (simp add: clean_filename_B_str map_underscore_reserved_id)
  qed
qed

theorem clean_filename_idempotent_witness:
  "clean_filename_A decode_ascii (PyStr ''report.pdf'') = Inr ''report.pdf''
 \<and> clean_filename_B (PyStr ''report.pdf'') = Inr ''report.pdf''
 \<and> clean_filename_A decode_ascii (PyStr ''a_b.pdf'') = clean_filename_A decode_ascii (PyStr ''a/b.pdf'')
 \<and> clean_filename_B (PyStr ''a_b.pdf'') = clean_filename_B (PyStr ''a/b.pdf'')"
proof -
  have h: "''report.pdf'' \<noteq> [] \<and> set ''report.pdf'' \<inter> set reserved = {}"
    by (simp add: reserved_def)
  have a: "clean_filename_A decode_ascii (PyStr ''a/b.pdf'') = Inr ''a_b.pdf''"
    by (simp add: clean_filename_A_def re_sub_class_def reserved_def)
  have b: "clean_filename_B (PyStr ''a/b.pdf'') = Inr ''a_b.pdf''"
    by (simp add: clean_filename_B_def re_sub_class_def reserved_def)
  have d: "\<And>b. b \<noteq> [] \<Longrightarrow> decode_ascii b \<noteq> Inr []"
    by (simp add: decode_ascii_def)
  show ?thesis
    using clean_filename_idempotent
            [where decode = decode_ascii and s = "''report.pdf''" and v = "PyStr ''a/b.pdf''", OF d] h
    by (simp add: a b)
qed

text \<open>
  C7. For an absent filename (\<open>None\<close>) and for the empty string, both sanitizers return
  the literal \<open>unnamed_attachment.pdf\<close>.
\<close>

theorem clean_filename_default:
  "clean_filename_A decode PyNone = Inr ''unnamed_attachment.pdf''
 \<and> clean_filename_A decode (PyStr '''') = Inr ''unnamed_attachment.pdf''
 \<and> clean_filename_B PyNone = Inr ''unnamed_attachment.pdf''
 \<and> clean_filename_B (PyStr '''') = Inr ''unnamed_attachment.pdf''"
  by (simp add: clean_filename_A_def clean_filename_B_def default_name_def)

section \<open>De-duplication of saved paths (Fetcher B)\<close>

lemma infinite_from: "infinite {k::nat. c \<le> k}"
proof -
  have "{k. c \<le> k} = {c..}" by auto
  then show ?thesis by (simp add: infinite_Ici)
qed

lemma probe_free_path_free: "\<not> path_exists fs (probe_free_path fs f b e c p)"
proof (induction fs f b e c p rule: probe_free_path.induct)
  case (1 fs f b e c p)
  then show ?case
    by (cases "path_exists fs p") (simp_all add: probe_free_path.simps [of fs f b e c p])
qed

lemma probe_free_path_unchanged:
  "\<not> path_exists fs p \<Longrightarrow> probe_free_path fs f b e c p = p"
  by (simp add: probe_free_path.simps [of fs f b e c p])

lemma probe_free_path_least:
  assumes "path_exists fs p"
    and "\<forall>j. c \<le> j \<and> j < k \<longrightarrow> path_exists fs (candidate f b e j)"
    and "\<not> path_exists fs (candidate f b e k)"
    and "c \<le> k"
  shows "probe_free_path fs f b e c p = candidate f b e k"
  using assms
proof (induction "k - c" arbitrary: c p)
  case 0
  then have "c = k" by simp
  with 0 show ?case
    by (simp add: probe_free_path.simps [of fs f b e k p] probe_free_path_unchanged)
next
  case (Suc n)
  then have lt: "c < k" by simp
  with Suc.prems have ex: "path_exists fs (candidate f b e c)" by simp
  have "probe_free_path fs f b e (c + 1) (candidate f b e c) = candidate f b e k"
  proof (rule Suc.hyps(1))
    show "n = k - (c + 1)" using Suc.hyps(2) by simp
    show "path_exists fs (candidate f b e c)" by (rule ex)
    show "\<forall>j. c + 1 \<le> j \<and> j < k \<longrightarrow> path_exists fs (candidate f b e j)"
      using Suc.prems(2) by simp
    show "\<not> path_exists fs (candidate f b e k)" by (rule Suc.prems(3))
    show "c + 1 \<le> k" using lt by simp
  qed
  with Suc.prems(1) show ?case
    by (simp add: probe_free_path.simps [of fs f b e c p])
qed

lemma probe_free_path_linear:
  "probe_free_path fs f b e c p = p \<and> \<not> path_exists fs p
   \<or> (\<exists>k\<ge>c. probe_free_path fs f b e c p = candidate f b e k \<and> path_exists fs p
         \<and> (\<forall>j. c \<le> j \<and> j < k \<longrightarrow> path_exists fs (candidate f b e j))
         \<and> \<not> path_exists fs (candidate f b e k))"
proof (cases "path_exists fs p")
  case False
  then show ?thesis by (simp add: probe_free_path_unchanged)
next
  case True
  let ?S = "{k. c \<le> k \<and> candidate f b e k \<in> set (map fst fs)}"
  have fin: "finite ?S" using finite_candidates [of "set (map fst fs)" f b e] by simp
  have "\<exists>k\<ge>c. \<not> path_exists fs (candidate f b e k)"
  proof (rule ccontr)
    assume "\<not> ?thesis"
    then have "{k. c \<le> k} \<subseteq> ?S" by (auto simp: path_exists_def)
    then have "finite {k. c \<le> k}" using fin by (rule finite_subset)
    moreover have "infinite {k. c \<le> k}" by (rule infinite_from)
    ultimately show False by simp
  qed
  then obtain k0 where k0: "c \<le> k0 \<and> \<not> path_exists fs (candidate f b e k0)" by blast
  define k where "k = (LEAST k. c \<le> k \<and> \<not> path_exists fs (candidate f b e k))"
  have kp: "c \<le> k \<and> \<not> path_exists fs (candidate f b e k)"
    unfolding k_def using k0 by (rule LeastI)
  have kl: "\<forall>j. c \<le> j \<and> j < k \<longrightarrow> path_exists fs (candidate f b e j)"
    unfolding k_def using not_less_Least by blast
  have "probe_free_path fs f b e c p = candidate f b e k"
    using True kl kp by (intro probe_free_path_least) auto
  with True kp kl show ?thesis by blast
qed

lemma has_non_dot_iff:
  "has_non_dot p i d = (\<exists>j. i \<le> j \<and> j < d \<and> p ! j \<noteq> CHR ''.'')"
proof (induction p i d rule: has_non_dot.induct)
  case (1 p i d)
  show ?case
  proof (cases "i < d")
    case False
    then show ?thesis by (simp add: has_non_dot.simps [of p i d])
  next
    case True
    show ?thesis
    proof (cases "p ! i \<noteq> CHR ''.''")
      case True
      with \<open>i < d\<close> show ?thesis by (auto simp: has_non_dot.simps [of p i d])
    next
      case False
      then have "has_non_dot p i d = has_non_dot p (i + 1) d"
        using \<open>i < d\<close> by (simp add: has_non_dot.simps [of p i d])
      also have "\<dots> = (\<exists>j. i + 1 \<le> j \<and> j < d \<and> p ! j \<noteq> CHR ''.'')"
        using 1 \<open>i < d\<close> False by simp
      also have "\<dots> = (\<exists>j. i \<le> j \<and> j < d \<and> p ! j \<noteq> CHR ''.'')"
        using False by (metis Suc_eq_plus1 Suc_leI le_neq_implies_less Suc_leD)
      finally show ?thesis .
    qed
  qed
qed

lemma rfind_absent: "c \<notin> set p \<Longrightarrow> rfind c p = - 1"
  by (simp add: rfind_def)

lemma rfind_last_occurrence:
  assumes "c \<notin> set t"
  shows "rfind c (s @ c # t) = int (length s)"
proof -
  have "takeWhile (\<lambda>x. x \<noteq> c) (rev t @ c # rev s) = rev t"
    using assms by (auto simp: takeWhile_tail)
  then show ?thesis by (simp add: rfind_def)
qed

lemma splitext_simple:
  assumes "CHR ''/'' \<notin> set name" "CHR ''/'' \<notin> set e" "CHR ''.'' \<notin> set e"
    and "\<exists>c\<in>set name. c \<noteq> CHR ''.''"
  shows "splitext (name @ CHR ''.'' # e) = (name, CHR ''.'' # e)"
proof -
  let ?p = "name @ CHR ''.'' # e"
  have sep: "rfind (CHR ''/'') ?p = - 1" using assms by (simp add: rfind_absent)
  have dot: "rfind (CHR ''.'') ?p = int (length name)"
    using assms(3) by (rule rfind_last_occurrence)
  from assms(4) obtain j where "j < length name" "name ! j \<noteq> CHR ''.''"
    by (metis in_set_conv_nth)
  then have "has_non_dot ?p 0 (length name)"
    by (auto simp: has_non_dot_iff nth_append)
  then show ?thesis by (simp add: splitext_def sep dot)
qed

lemma splitext_pdf:
  assumes "set name \<inter> set reserved = {}" and "\<exists>c\<in>set name. c \<noteq> CHR ''.''"
  shows "splitext (name @ ''.pdf'') = (name, ''.pdf'')"
proof -
  have "CHR ''/'' \<notin> set name" using assms(1) by (auto simp: reserved_def)
  then show ?thesis using splitext_simple [of name "''pdf''"] assms(2) by simp
qed


lemma underscore_reserved_preimage:
  "underscore_reserved c = d \<Longrightarrow> d \<noteq> CHR ''_'' \<Longrightarrow> c = d"
  by (auto simp: underscore_reserved_def split: if_splits)

lemma map_underscore_reserved_preimage:
  "map underscore_reserved r = s \<Longrightarrow> CHR ''_'' \<notin> set s \<Longrightarrow> r = s"
proof (induction r arbitrary: s)
  case Nil
  then show ?case by simp
next
  case (Cons c r)
  then obtain d s' where s: "s = d # s'" by auto
  with Cons.prems have "underscore_reserved c = d" "d \<noteq> CHR ''_''"
    "map underscore_reserved r = s'" "CHR ''_'' \<notin> set s'" by auto
  then show ?case using Cons.IH s underscore_reserved_preimage by blast
qed

lemma cleaned_suffix:
  assumes "map underscore_reserved raw = name @ s" and "CHR ''_'' \<notin> set s"
  shows "\<exists>r. raw = r @ s \<and> map underscore_reserved r = name"
proof -
  from assms(1) obtain r r' where "raw = r @ r'" "map underscore_reserved r = name"
    "map underscore_reserved r' = s"
    by (auto simp: map_eq_append_conv)
  moreover from this assms(2) have "r' = s" using map_underscore_reserved_preimage by blast
  ultimately show ?thesis by blast
qed

lemma endswith_pdf: "endswith (py_lower (r @ ''.pdf'')) ''.pdf''"
  by (simp add: endswith_def py_lower_def lower_char_def)

lemma cleaned_pdf_is_pdf:
  assumes "map underscore_reserved (att_filename att) = name @ ''.pdf''"
  shows "is_pdf_B att"
proof -
  obtain r where "att_filename att = r @ ''.pdf''"
    using cleaned_suffix [OF assms] by auto
  then show ?thesis by (simp add: is_pdf_B_def endswith_pdf)
qed

lemma files_print_line [simp]: "files (print_line s w) = files w"
  by (simp add: print_line_def)

lemma save_step_B:
  assumes "map underscore_reserved (att_filename att) = name @ ''.pdf''"
  shows "process_attachments_B mf (Inr att # atts) df w =
         process_attachments_B mf atts (df @ [unique_path (files w) mf (name @ ''.pdf'')])
           (print_line (''  Saved: '' @ unique_path (files w) mf (name @ ''.pdf''))
              ((print_line (''  Downloading: '' @ name @ ''.pdf'') w)
                 \<lparr>files := write_file (unique_path (files w) mf (name @ ''.pdf'')) (att_payload att) (files w)\<rparr>))"
proof -
  have ne: "att_filename att \<noteq> []" using assms by auto
  have pdf: "is_pdf_B att" using assms by (rule cleaned_pdf_is_pdf)
  show ?thesis
    using pdf by (simp add: clean_filename_B_str [OF ne] assms Let_def)
qed

lemma path_join_length_neq:
  assumes "length b \<noteq> length b'"
    and "(b \<noteq> [] \<and> hd b = CHR ''/'') = (b' \<noteq> [] \<and> hd b' = CHR ''/'')"
  shows "path_join a b \<noteq> path_join a b'"
  using assms path_join_inj by fastforce

lemma str_int_1: "str_int 1 = ''1''" and str_int_2: "str_int 2 = ''2''"
  by (simp_all add: str_int_def dec_digits.simps digit_char_def)

lemma candidate_1: "candidate mf name ''.pdf'' 1 = path_join mf (name @ ''_1.pdf'')"
  by (simp add: candidate_def str_int_1)

lemma candidate_2: "candidate mf name ''.pdf'' 2 = path_join mf (name @ ''_2.pdf'')"
  using str_int_2 by (simp add: candidate_def)

lemma path_exists_write_file [simp]:
  "path_exists (write_file p d fs) q = (q = p \<or> path_exists fs q)"
  by (auto simp: path_exists_def write_file_def)

lemma plain_neq_candidate:
  "path_join mf (name @ ''.pdf'') \<noteq> candidate mf name ''.pdf'' k"
  unfolding candidate_def
proof (rule path_join_length_neq)
  have "dec_digits (nat (int k)) \<noteq> []" by (simp add: dec_digits.simps [of k])
  then show "length (name @ ''.pdf'') \<noteq> length (name @ ''_'' @ str_int (int k) @ ''.pdf'')"
    by (simp add: str_int_def)
  show "(name @ ''.pdf'' \<noteq> [] \<and> hd (name @ ''.pdf'') = CHR ''/'')
      = (name @ ''_'' @ str_int (int k) @ ''.pdf'' \<noteq> []
         \<and> hd (name @ ''_'' @ str_int (int k) @ ''.pdf'') = CHR ''/'')"
    by (cases name) simp_all
qed

lemma unique_path_free: "\<not> path_exists fs (unique_path fs mf fn)"
  by (simp add: unique_path_def probe_free_path_free split: prod.split)

lemma unique_path_plain: "\<not> path_exists fs (path_join mf fn) \<Longrightarrow> unique_path fs mf fn = path_join mf fn"
  by (simp add: unique_path_def probe_free_path_unchanged split: prod.split)

lemma unique_path_kth:
  assumes "splitext fn = (b, e)" and "path_exists fs (path_join mf fn)"
    and "\<forall>j. 1 \<le> j \<and> j < k \<longrightarrow> path_exists fs (candidate mf b e j)"
    and "\<not> path_exists fs (candidate mf b e k)" and "1 \<le> k"
  shows "unique_path fs mf fn = candidate mf b e k"
  using assms by (simp add: unique_path_def probe_free_path_least)

lemma unique_path_linear:
  "\<not> path_exists fs (unique_path fs mf fn)
   \<and> (unique_path fs mf fn = path_join mf fn
      \<or> (\<exists>k\<ge>1. unique_path fs mf fn = candidate mf (fst (splitext fn)) (snd (splitext fn)) k
            \<and> path_exists fs (path_join mf fn)
            \<and> (\<forall>j. 1 \<le> j \<and> j < k \<longrightarrow>
                  path_exists fs (candidate mf (fst (splitext fn)) (snd (splitext fn)) j))))"
proof -
  obtain b e where be: "splitext fn = (b, e)" by (cases "splitext fn")
  show ?thesis
    using probe_free_path_linear [of fs mf b e 1 "path_join mf fn"] unique_path_free [of fs mf fn]
    by (auto simp: unique_path_def be)
qed

text \<open>
  C2, as stated, fails for the filename \<open>.pdf\<close>, the case of an empty \<open>name\<close>.
  \<open>os.path.splitext\<close> takes a name made of leading dots and a last component without a
  further dot as a name without extension, so line 102 gives \<open>base_name = ".pdf"\<close> and
  \<open>ext = ""\<close>, and the counter goes behind the whole name: three such attachments are
  written as \<open>.pdf\<close>, \<open>.pdf_1\<close> and \<open>.pdf_2\<close>, not as \<open>.pdf\<close>, \<open>_1.pdf\<close> and \<open>_2.pdf\<close>.
\<close>

theorem dedup_dot_pdf_suffix_after_name:
  "clean_filename_B (PyStr ''.pdf'') = Inr ''.pdf''
 \<and> splitext ''.pdf'' = (''.pdf'', [])
 \<and> process_attachments_B ''out/2025-05''
       [Inr (dot_pdf_attachment ''A''), Inr (dot_pdf_attachment ''B''),
        Inr (dot_pdf_attachment ''C'')] [] \<lparr>files = [], out = []\<rparr>
   = (None,
      [''out/2025-05/.pdf'', ''out/2025-05/.pdf_1'', ''out/2025-05/.pdf_2''],
      \<lparr>files = [(''out/2025-05/.pdf_2'', RegularFile ''C''),
                (''out/2025-05/.pdf_1'', RegularFile ''B''),
                (''out/2025-05/.pdf'', RegularFile ''A'')],
       out = [''  Downloading: .pdf'', ''  Saved: out/2025-05/.pdf'',
              ''  Downloading: .pdf'', ''  Saved: out/2025-05/.pdf_1'',
              ''  Downloading: .pdf'', ''  Saved: out/2025-05/.pdf_2'']\<rparr>)
 \<and> fst (snd (process_attachments_B ''out/2025-05''
       [Inr (dot_pdf_attachment ''A''), Inr (dot_pdf_attachment ''B''),
        Inr (dot_pdf_attachment ''C'')] [] \<lparr>files = [], out = []\<rparr>))
   \<noteq> [''out/2025-05/.pdf'', ''out/2025-05/_1.pdf'', ''out/2025-05/_2.pdf'']"
  by (simp add: eval_defs dot_pdf_attachment_def)

text \<open>
  C2, amended. Three attachments whose cleaned filenames are the same \<open>name.pdf\<close>, where
  \<open>name\<close> has a character other than a dot, saved into one monthly folder in which none of
  the three paths exists yet, are written as \<open>name.pdf\<close>, \<open>name_1.pdf\<close> and \<open>name_2.pdf\<close>, in
  this order. In general the saved path is free, and it is the plain path or, when that
  exists, the candidate with the least counter from 1 on whose path is free; the candidate
  puts the counter between the two halves that \<open>os.path.splitext\<close> gives for the filename.
\<close>

theorem dedup_numeric_suffix:
  assumes same: "map underscore_reserved (att_filename a1) = name @ ''.pdf''"
      "map underscore_reserved (att_filename a2) = name @ ''.pdf''"
      "map underscore_reserved (att_filename a3) = name @ ''.pdf''"
    and nondot: "\<exists>c\<in>set name. c \<noteq> CHR ''.''"
    and free: "\<not> path_exists (files w) (path_join mf (name @ ''.pdf''))"
      "\<not> path_exists (files w) (path_join mf (name @ ''_1.pdf''))"
      "\<not> path_exists (files w) (path_join mf (name @ ''_2.pdf''))"
  shows "(case process_attachments_B mf [Inr a1, Inr a2, Inr a3] df w of
            (raised, downloaded_files, w') \<Rightarrow>
              raised = None
              \<and> downloaded_files = df @ [path_join mf (name @ ''.pdf''),
                                         path_join mf (name @ ''_1.pdf''),
                                         path_join mf (name @ ''_2.pdf'')]
              \<and> files w' = [(path_join mf (name @ ''_2.pdf''), RegularFile (att_payload a3)),
                            (path_join mf (name @ ''_1.pdf''), RegularFile (att_payload a2)),
                            (path_join mf (name @ ''.pdf''), RegularFile (att_payload a1))] @ files w)
       \<and> \<not> path_exists fs (unique_path fs folder fn)
       \<and> (unique_path fs folder fn = path_join folder fn
          \<or> (\<exists>k\<ge>1. unique_path fs folder fn
                        = candidate folder (fst (splitext fn)) (snd (splitext fn)) k
                \<and> path_exists fs (path_join folder fn)
                \<and> (\<forall>j. 1 \<le> j \<and> j < k \<longrightarrow>
                      path_exists fs (candidate folder (fst (splitext fn)) (snd (splitext fn)) j))))"
proof -
  let ?p0 = "path_join mf (name @ ''.pdf'')"
  let ?p1 = "path_join mf (name @ ''_1.pdf'')"
  let ?p2 = "path_join mf (name @ ''_2.pdf'')"
  let ?fs1 = "write_file ?p0 (att_payload a1) (files w)"
  let ?fs2 = "write_file ?p1 (att_payload a2) ?fs1"
  have clean: "set name \<inter> set reserved = {}"
    using map_underscore_reserved_clean [of "att_filename a1"] same(1) by auto
  have sp: "splitext (name @ ''.pdf'') = (name, ''.pdf'')"
    using clean nondot by (rule splitext_pdf)
  have c1: "candidate mf name ''.pdf'' 1 = ?p1" by (rule candidate_1)
  have c2: "candidate mf name ''.pdf'' 2 = ?p2" by (rule candidate_2)
  have n01: "?p1 \<noteq> ?p0" using plain_neq_candidate [of mf name 1] c1 by simp
  have n02: "?p2 \<noteq> ?p0" using plain_neq_candidate [of mf name 2] c2 by simp
  have n12: "?p2 \<noteq> ?p1" using candidate_inj [of mf name "''.pdf''" 2 1] c1 c2 by auto
  have u0: "unique_path (files w) mf (name @ ''.pdf'') = ?p0"
    using free(1) by (rule unique_path_plain)
  have u1: "unique_path ?fs1 mf (name @ ''.pdf'') = ?p1"
  proof -
    have "unique_path ?fs1 mf (name @ ''.pdf'') = candidate mf name ''.pdf'' 1"
    proof (rule unique_path_kth [OF sp])
      show "path_exists ?fs1 ?p0" by simp
      show "\<forall>j. 1 \<le> j \<and> j < 1 \<longrightarrow> path_exists ?fs1 (candidate mf name ''.pdf'' j)" by simp
      show "\<not> path_exists ?fs1 (candidate mf name ''.pdf'' 1)"
        unfolding c1 using free(2) n01 by simp
      show "(1::nat) \<le> 1" by simp
    qed
    then show ?thesis unfolding c1 .
  qed
  have u2: "unique_path ?fs2 mf (name @ ''.pdf'') = ?p2"
  proof -
    have "unique_path ?fs2 mf (name @ ''.pdf'') = candidate mf name ''.pdf'' 2"
    proof (rule unique_path_kth [OF sp])
      show "path_exists ?fs2 ?p0" by simp
      show "\<forall>j. 1 \<le> j \<and> j < 2 \<longrightarrow> path_exists ?fs2 (candidate mf name ''.pdf'' j)"
      proof (intro allI impI)
        fix j :: nat assume "1 \<le> j \<and> j < 2"
        then have "j = 1" by simp
        then show "path_exists ?fs2 (candidate mf name ''.pdf'' j)"
          unfolding \<open>j = 1\<close> c1 by simp
      qed
      show "\<not> path_exists ?fs2 (candidate mf name ''.pdf'' 2)"
        unfolding c2 using free(3) n02 n12 by simp
      show "(1::nat) \<le> 2" by simp
    qed
    then show ?thesis unfolding c2 .
  qed
  let ?w1 = "print_line (''  Saved: '' @ ?p0)
               ((print_line (''  Downloading: '' @ name @ ''.pdf'') w)\<lparr>files := ?fs1\<rparr>)"
  let ?w2 = "print_line (''  Saved: '' @ ?p1)
               ((print_line (''  Downloading: '' @ name @ ''.pdf'') ?w1)\<lparr>files := ?fs2\<rparr>)"
  let ?w3 = "print_line (''  Saved: '' @ ?p2)
               ((print_line (''  Downloading: '' @ name @ ''.pdf'') ?w2)
                  \<lparr>files := write_file ?p2 (att_payload a3) ?fs2\<rparr>)"
  have f1: "files ?w1 = ?fs1" and f2: "files ?w2 = ?fs2" by simp_all
  have "process_attachments_B mf [Inr a1, Inr a2, Inr a3] df w
        = process_attachments_B mf [Inr a2, Inr a3] (df @ [?p0]) ?w1"
    using save_step_B [OF same(1), of mf "[Inr a2, Inr a3]" df w] unfolding u0 .
  also have "\<dots> = process_attachments_B mf [Inr a3] ((df @ [?p0]) @ [?p1]) ?w2"
    using save_step_B [OF same(2), of mf "[Inr a3]" "df @ [?p0]" ?w1] unfolding f1 u1 .
  also have "\<dots> = process_attachments_B mf [] (((df @ [?p0]) @ [?p1]) @ [?p2]) ?w3"
    using save_step_B [OF same(3), of mf "[]" "(df @ [?p0]) @ [?p1]" ?w2] unfolding f2 u2 .
  finally have "process_attachments_B mf [Inr a1, Inr a2, Inr a3] df w
                = (None, df @ [?p0, ?p1, ?p2], ?w3)"
    by simp
  then show ?thesis
    using unique_path_linear [of fs folder fn] by (simp add: write_file_def)
qed

theorem dedup_numeric_suffix_witness:
  "(case process_attachments_B ''out/2025-05''
           [Inr (sample_attachment ''A''), Inr (sample_attachment ''B''),
            Inr (sample_attachment ''C'')] [] \<lparr>files = [], out = []\<rparr> of
      (raised, downloaded_files, w') \<Rightarrow>
        raised = None
        \<and> downloaded_files = [''out/2025-05/name.pdf'', ''out/2025-05/name_1.pdf'',
                               ''out/2025-05/name_2.pdf'']
        \<and> files w' = [(''out/2025-05/name_2.pdf'', RegularFile ''C''),
                      (''out/2025-05/name_1.pdf'', RegularFile ''B''),
                      (''out/2025-05/name.pdf'', RegularFile ''A'')])"
proof -
  have m: "\<And>d. map underscore_reserved (att_filename (sample_attachment d)) = ''name'' @ ''.pdf''"
    by (simp add: sample_attachment_def underscore_reserved_def reserved_def)
  have nd: "\<exists>c\<in>set ''name''. c \<noteq> CHR ''.''" by simp
  have f: "\<not> path_exists (files \<lparr>files = [], out = []\<rparr>) (path_join ''out/2025-05'' (''name'' @ ''.pdf''))"
     "\<not> path_exists (files \<lparr>files = [], out = []\<rparr>) (path_join ''out/2025-05'' (''name'' @ ''_1.pdf''))"
     "\<not> path_exists (files \<lparr>files = [], out = []\<rparr>) (path_join ''out/2025-05'' (''name'' @ ''_2.pdf''))"
    by (simp_all add: path_exists_def)
  have p: "path_join ''out/2025-05'' (''name'' @ ''.pdf'') = ''out/2025-05/name.pdf''"
    "path_join ''out/2025-05'' (''name'' @ ''_1.pdf'') = ''out/2025-05/name_1.pdf''"
    "path_join ''out/2025-05'' (''name'' @ ''_2.pdf'') = ''out/2025-05/name_2.pdf''"
    by (simp_all add: path_join_def)
  have a: "\<And>d. att_payload (sample_attachment d) = d" by (simp add: sample_attachment_def)
  show ?thesis
    using dedup_numeric_suffix [OF m [of "''A''"] m [of "''B''"] m [of "''C''"] nd f, where df = "[]"]
    unfolding p a by simp
qed

section \<open>Monthly folder names (Fetcher B)\<close>

lemma dec_digits_1: "n < 10 \<Longrightarrow> dec_digits n = [digit_char n]"
  by (simp add: dec_digits.simps [of n])

lemma dec_digits_2:
  "10 \<le> n \<Longrightarrow> n < 100 \<Longrightarrow> dec_digits n = [digit_char (n div 10), digit_char (n mod 10)]"
  by (simp add: dec_digits.simps [of n] dec_digits_1)

lemma dec_digits_3:
  "100 \<le> n \<Longrightarrow> n < 1000 \<Longrightarrow>
   dec_digits n = [digit_char (n div 100), digit_char (n div 10 mod 10), digit_char (n mod 10)]"
  by (simp add: dec_digits.simps [of n] dec_digits_2 div_mult2_eq [symmetric])

lemma dec_digits_4:
  "1000 \<le> n \<Longrightarrow> n < 10000 \<Longrightarrow>
   dec_digits n = [digit_char (n div 1000), digit_char (n div 100 mod 10),
                   digit_char (n div 10 mod 10), digit_char (n mod 10)]"
  by (simp add: dec_digits.simps [of n] dec_digits_3 div_mult2_eq [symmetric])

lemma format_02d_two_digits:
  assumes "0 \<le> m" "m < 100"
  shows "format_02d m = [digit_char (nat m div 10), digit_char (nat m mod 10)]"
proof (cases "nat m < 10")
  case True
  then have "nat m div 10 = 0" "nat m mod 10 = nat m" by simp_all
  moreover have "digit_char 0 = CHR ''0''" by (simp add: digit_char_def)
  ultimately show ?thesis using assms True by (simp add: format_02d_def dec_digits_1)
next
  case False
  then show ?thesis using assms by (simp add: format_02d_def dec_digits_2)
qed

lemma monthly_folder_name_four_digit_year:
  assumes "1000 \<le> year d" "year d \<le> 9999" "1 \<le> month d" "month d \<le> 12"
  shows "monthly_folder_name d =
           [digit_char (nat (year d) div 1000), digit_char (nat (year d) div 100 mod 10),
            digit_char (nat (year d) div 10 mod 10), digit_char (nat (year d) mod 10),
            CHR ''-'',
            digit_char (nat (month d) div 10), digit_char (nat (month d) mod 10)]"
proof -
  have "str_int (year d) = dec_digits (nat (year d))" using assms by (simp add: str_int_def)
  moreover have "1000 \<le> nat (year d)" "nat (year d) < 10000" using assms by simp_all
  ultimately have y: "str_int (year d) =
      [digit_char (nat (year d) div 1000), digit_char (nat (year d) div 100 mod 10),
       digit_char (nat (year d) div 10 mod 10), digit_char (nat (year d) mod 10)]"
    by (simp add: dec_digits_4)
  have m: "format_02d (month d) = [digit_char (nat (month d) div 10), digit_char (nat (month d) mod 10)]"
    using assms by (intro format_02d_two_digits) simp_all
  show ?thesis by (simp add: monthly_folder_name_def y m)
qed

lemma monthly_folder_name_2025_05:
  assumes "year d = 2025" "month d = 5"
  shows "monthly_folder_name d = ''2025-05''"
  using assms
  by (simp add: monthly_folder_name_def str_int_def format_02d_def dec_digits.simps digit_char_def)

text \<open>
  C3. The folder name is the year as \<open>str\<close> prints it, a hyphen and the month padded to two
  digits. For a year from 1000 to 9999 that is the four-digit year (lemma
  \<open>monthly_folder_name_four_digit_year\<close>), and year 2025 with month 5 gives \<open>2025-05\<close>
  (lemma \<open>monthly_folder_name_2025_05\<close>). The year is not padded, although line 23 is
  commented \<open>Format as YYYY-MM\<close>: the date 0999-05-01 gives \<open>999-05\<close>.
\<close>

theorem monthly_folder_name_year_999:
  "monthly_folder_name \<lparr>year = 999, month = 5, day = 1, hour = 0, minute = 0, second = 0\<rparr> = ''999-05''"
  by (simp add: monthly_folder_name_def str_int_def format_02d_def dec_digits.simps digit_char_def)

lemma get_monthly_folder_path:
  "fst (get_monthly_folder d base w) = path_join base (monthly_folder_name d)"
  by (simp add: get_monthly_folder_def Let_def)

section \<open>Only PDF attachments are written\<close>

lemma process_parts_A_skip:
  "\<not> is_pdf_attachment_A part \<Longrightarrow>
   process_parts_A decode od subj (Inr part # parts) df w = process_parts_A decode od subj parts df w"
  by simp

lemma process_attachments_B_skip:
  "\<not> is_pdf_B att \<Longrightarrow>
   process_attachments_B mf (Inr att # atts) df w = process_attachments_B mf atts df w"
  by simp

lemma process_parts_A_filter:
  "process_parts_A decode od subj (filter pdf_or_raises_A parts) df w
   = process_parts_A decode od subj parts df w"
proof (induction parts arbitrary: df w)
  case Nil
  then show ?case by simp
next
  case (Cons x parts)
  show ?case
  proof (cases x)
    case (Inl e)
    then show ?thesis by (simp add: pdf_or_raises_A_def)
  next
    case (Inr part)
    show ?thesis
    proof (cases "content_type part = ''application/pdf''")
      case True
      then show ?thesis
        using Cons.IH Inr
        by (simp add: pdf_or_raises_A_def Let_def split: option.split sum.split)
    next
      case False
      then have "\<not> is_pdf_attachment_A part" by (simp add: is_pdf_attachment_A_def)
      then show ?thesis using Cons.IH Inr False by (simp add: pdf_or_raises_A_def)
    qed
  qed
qed

lemma process_attachments_B_filter:
  "process_attachments_B mf (filter pdf_or_raises_B atts) df w
   = process_attachments_B mf atts df w"
proof (induction atts arbitrary: df w)
  case Nil
  then show ?case by simp
next
  case (Cons x atts)
  show ?case
  proof (cases x)
    case (Inl e)
    then show ?thesis by (simp add: pdf_or_raises_B_def)
  next
    case (Inr att)
    then show ?thesis
      using Cons.IH by (simp add: pdf_or_raises_B_def Let_def split: sum.split)
  qed
qed

lemma process_message_A_without_non_pdf:
  "process_message_A decode (without_non_pdf_A mb) od tot i message_id df w
   = process_message_A decode mb od tot i message_id df w"
proof (cases "imap_fetch mb message_id")
  case (Inl e)
  then show ?thesis by (simp add: process_message_A_def without_non_pdf_A_def)
next
  case (Inr r)
  obtain status parsed where r: "r = (status, parsed)" by (cases r)
  show ?thesis
  proof (cases parsed)
    case (Inl e)
    with Inr r show ?thesis by (simp add: process_message_A_def without_non_pdf_A_def)
  next
    case (Inr msg)
    have "subject_A decode (msg\<lparr>walk := filter pdf_or_raises_A (walk msg)\<rparr>) = subject_A decode msg"
      by (simp add: subject_A_def)
    with \<open>imap_fetch mb message_id = Inr r\<close> r Inr show ?thesis
      by (simp add: process_message_A_def without_non_pdf_A_def process_parts_A_filter Let_def
               split: sum.split)
  qed
qed

lemma process_messages_A_without_non_pdf:
  "process_messages_A decode (without_non_pdf_A mb) od tot i ids df w
   = process_messages_A decode mb od tot i ids df w"
  by (induction ids arbitrary: i df w)
     (simp_all add: process_message_A_without_non_pdf split: prod.split option.split)

lemma without_non_pdf_A_fields [simp]:
  "imap_connect (without_non_pdf_A mb) = imap_connect mb"
  "imap_login (without_non_pdf_A mb) = imap_login mb"
  "imap_select (without_non_pdf_A mb) = imap_select mb"
  "imap_search (without_non_pdf_A mb) = imap_search mb"
  "imap_logout (without_non_pdf_A mb) = imap_logout mb"
  "imap_now (without_non_pdf_A mb) = imap_now mb"
  by (simp_all add: without_non_pdf_A_def)

lemma download_A_without_non_pdf:
  "download_pdf_attachments_A decode (without_non_pdf_A mb) args w
   = download_pdf_attachments_A decode mb args w"
  unfolding download_pdf_attachments_A_def without_non_pdf_A_fields
    process_messages_A_without_non_pdf
  by (rule refl)

lemma process_messages_B_filter:
  "process_messages_B dbg od tot i
     (map (map_sum id (\<lambda>msg. msg\<lparr>msg_attachments := filter pdf_or_raises_B (msg_attachments msg)\<rparr>)) msgs)
     df w
   = process_messages_B dbg od tot i msgs df w"
proof (induction msgs arbitrary: i df w)
  case Nil
  then show ?case by simp
next
  case (Cons x msgs)
  show ?case
  proof (cases x)
    case (Inl e)
    then show ?thesis by simp
  next
    case (Inr msg)
    then show ?thesis
      using Cons.IH
      by (simp add: process_attachments_B_filter Let_def split: sum.split prod.split option.split)
  qed
qed

lemma count_messages_map:
  "count_messages (map (map_sum id f) msgs) = count_messages msgs"
proof (induction msgs)
  case Nil
  then show ?case by simp
next
  case (Cons x msgs)
  then show ?case by (cases x) simp_all
qed

lemma without_non_pdf_B_fields [simp]:
  "mb_connect (without_non_pdf_B mb) = mb_connect mb"
  "mb_login (without_non_pdf_B mb) = mb_login mb"
  "mb_logout (without_non_pdf_B mb) = mb_logout mb"
  "mb_now (without_non_pdf_B mb) = mb_now mb"
  "mb_query_text (without_non_pdf_B mb) = mb_query_text mb"
  by (simp_all add: without_non_pdf_B_def)

lemma session_B_without_non_pdf:
  "session_B (without_non_pdf_B mb) args w = session_B mb args w"
proof -
  have f: "\<And>k q. mb_fetch (without_non_pdf_B mb) k q =
      map (map_sum id (\<lambda>msg. msg\<lparr>msg_attachments := filter pdf_or_raises_B (msg_attachments msg)\<rparr>))
        (mb_fetch mb k q)"
    by (simp add: without_non_pdf_B_def)
  show ?thesis
    unfolding session_B_def Let_def without_non_pdf_B_fields f count_messages_map
      process_messages_B_filter
    by (rule refl)
qed

lemma download_B_without_non_pdf:
  "download_pdf_attachments_B (without_non_pdf_B mb) args w = download_pdf_attachments_B mb args w"
  by (simp add: download_pdf_attachments_B_def session_B_without_non_pdf)

lemma evA: "download_pdf_attachments_A decode_ascii sample_mailbox_A sample_args_A empty_world
  = (Inr [''pdfs/Invoice_20250503_100000_x.pdf''],
     \<lparr>files = [(''pdfs/Invoice_20250503_100000_x.pdf'', RegularFile ''data''), (''pdfs'', Directory)],
      out = [''Created directory: pdfs'', ''Successfully connected to imap.gmail.com'',
             ''Found 1 messages matching criteria'', ''Processing message 1/1...'',
             ''Downloaded: pdfs/Invoice_20250503_100000_x.pdf'', ''Downloaded 1 PDF attachments'']\<rparr>)"
  by (simp add: eval_defs sample_mailbox_A_def sample_args_A_def sample_message_A_def sample_part_def
        sample_clock_def empty_world_def)

lemma evB: "download_pdf_attachments_B sample_mailbox_B sample_args_B empty_world
  = ([''out/2025-05/name.pdf''],
     \<lparr>files = [(''out/2025-05/name.pdf'', RegularFile ''A''), (''out/2025-05'', Directory), (''out'', Directory)],
      out = [''Created directory: out'', ''Found 1 messages'', ''Processing message 1/1: Invoice'',
             ''  Downloading: name.pdf'', ''  Saved: out/2025-05/name.pdf'',
             ''Downloaded 1 PDF attachments'']\<rparr>)"
  by (simp add: eval_defs sample_mailbox_B_def sample_args_B_def sample_message_B_def sample_attachment_def
        sample_clock_def empty_world_def)

lemma process_attachments_B_content_type:
  "process_attachments_B mf (Inr (att\<lparr>att_content_type := t\<rparr>) # atts) df w
   = process_attachments_B mf (Inr att # atts) df w"
  by (simp add: is_pdf_B_def Let_def split: sum.split)

text \<open>
  C4, as stated, fails in Fetcher B for an attachment that is not a PDF but carries a
  filename ending in \<open>.pdf\<close>. Line 97 tests the filename only, so the PNG image that a
  message carries under the name \<open>scan.pdf\<close> is written to disk.
\<close>

theorem image_named_pdf_written:
  "att_content_type image_named_pdf = ''image/png''
 \<and> download_pdf_attachments_B image_mailbox_B sample_args_B empty_world
   = ([''out/2025-05/scan.pdf''],
      \<lparr>files = [(''out/2025-05/scan.pdf'', RegularFile ''PNG''), (''out/2025-05'', Directory),
                (''out'', Directory)],
       out = [''Created directory: out'', ''Found 1 messages'', ''Processing message 1/1: Invoice'',
              ''  Downloading: scan.pdf'', ''  Saved: out/2025-05/scan.pdf'',
              ''Downloaded 1 PDF attachments'']\<rparr>)"
  by (simp add: eval_defs image_named_pdf_def image_mailbox_B_def sample_mailbox_B_def
        sample_args_B_def sample_message_B_def sample_clock_def empty_world_def)

text \<open>
  C4, amended. Fetcher A tells a PDF by the content type: a part whose content type is not
  \<open>application/pdf\<close> is passed over whatever its disposition, the loop going on with the
  list, the file system and the output as they were. Fetcher B tells a PDF by the filename:
  an attachment whose lower-cased filename does not end in \<open>.pdf\<close> is passed over in the same
  way, and the content type of an attachment has no part in what the loop does. A whole run
  of either fetcher returns the same list and leaves the same files and output as the run
  on the mailbox from which every attachment failing that fetcher's test has been taken
  away, so every file written comes from an attachment that passes it.
\<close>

theorem non_pdf_never_written:
  "(content_type part \<noteq> ''application/pdf'' \<longrightarrow>
      process_parts_A decode od subj (Inr part # parts) df w
      = process_parts_A decode od subj parts df w)
 \<and> (\<not> endswith (py_lower (att_filename att)) ''.pdf'' \<longrightarrow>
      process_attachments_B mf (Inr att # atts) df w = process_attachments_B mf atts df w)
 \<and> process_attachments_B mf (Inr (att\<lparr>att_content_type := t\<rparr>) # atts) df w
     = process_attachments_B mf (Inr att # atts) df w
 \<and> download_pdf_attachments_A decode mbA argsA w
     = download_pdf_attachments_A decode (without_non_pdf_A mbA) argsA w
 \<and> download_pdf_attachments_B mbB argsB w
     = download_pdf_attachments_B (without_non_pdf_B mbB) argsB w"
proof (intro conjI impI)
  assume "content_type part \<noteq> ''application/pdf''"
  then have "\<not> is_pdf_attachment_A part" by (simp add: is_pdf_attachment_A_def)
  then show "process_parts_A decode od subj (Inr part # parts) df w
             = process_parts_A decode od subj parts df w"
    by (rule process_parts_A_skip)
next
  assume "\<not> endswith (py_lower (att_filename att)) ''.pdf''"
  then have "\<not> is_pdf_B att" by (simp add: is_pdf_B_def)
  then show "process_attachments_B mf (Inr att # atts) df w = process_attachments_B mf atts df w"
    by (rule process_attachments_B_skip)
next
  show "process_attachments_B mf (Inr (att\<lparr>att_content_type := t\<rparr>) # atts) df w
        = process_attachments_B mf (Inr att # atts) df w"
    by (rule process_attachments_B_content_type)
next
  show "download_pdf_attachments_A decode mbA argsA w
        = download_pdf_attachments_A decode (without_non_pdf_A mbA) argsA w"
    by (rule download_A_without_non_pdf [symmetric])
next
  show "download_pdf_attachments_B mbB argsB w
        = download_pdf_attachments_B (without_non_pdf_B mbB) argsB w"
    by (rule download_B_without_non_pdf [symmetric])
qed

theorem non_pdf_never_written_witness:
  "process_parts_A decode_ascii ''pdfs'' ''Invoice''
     [Inr (sample_part ''attachment; filename=x.png'' ''image/png'' (Some ''x.png''))] [] empty_world
   = (None, [], empty_world)
 \<and> process_attachments_B ''out/2025-05''
     [Inr \<lparr>att_filename = ''photo.png'', att_content_type = ''image/png'', att_payload = ''PNG''\<rparr>]
     [] empty_world
   = (None, [], empty_world)
 \<and> process_attachments_B ''out/2025-05''
     [Inr \<lparr>att_filename = ''photo.png'', att_content_type = ''application/pdf'',
          att_payload = ''PNG''\<rparr>]
     [] empty_world
   = (None, [], empty_world)
 \<and> fst (download_pdf_attachments_A decode_ascii (without_non_pdf_A sample_mailbox_A) sample_args_A
           empty_world)
   = Inr [''pdfs/Invoice_20250503_100000_x.pdf'']
 \<and> fst (download_pdf_attachments_B (without_non_pdf_B sample_mailbox_B) sample_args_B empty_world)
   = [''out/2025-05/name.pdf'']"
proof -
  let ?png = "\<lparr>att_filename = ''photo.png'', att_content_type = ''image/png'', att_payload = ''PNG''\<rparr>"
  have a: "content_type (sample_part ''attachment; filename=x.png'' ''image/png'' (Some ''x.png''))
           \<noteq> ''application/pdf''"
    by (simp add: sample_part_def)
  have b: "\<not> endswith (py_lower (att_filename ?png)) ''.pdf''"
    by (simp add: endswith_def py_lower_def lower_char_def)
  note t = non_pdf_never_written
             [where part = "sample_part ''attachment; filename=x.png'' ''image/png'' (Some ''x.png'')"
                and att = ?png and t = "''application/pdf''"
                and decode = decode_ascii and od = "''pdfs''" and subj = "''Invoice''"
                and parts = "[]" and atts = "[]" and df = "[]" and w = empty_world
                and mf = "''out/2025-05''"
                and mbA = sample_mailbox_A and argsA = sample_args_A
                and mbB = sample_mailbox_B and argsB = sample_args_B]
  from t a have 1: "process_parts_A decode_ascii ''pdfs'' ''Invoice''
     [Inr (sample_part ''attachment; filename=x.png'' ''image/png'' (Some ''x.png''))] [] empty_world
     = process_parts_A decode_ascii ''pdfs'' ''Invoice'' [] [] empty_world" by blast
  from t b have 2: "process_attachments_B ''out/2025-05'' [Inr ?png] [] empty_world
     = process_attachments_B ''out/2025-05'' [] [] empty_world" by blast
  from t have 3: "process_attachments_B ''out/2025-05''
       [Inr (?png\<lparr>att_content_type := ''application/pdf''\<rparr>)] [] empty_world
     = process_attachments_B ''out/2025-05'' [Inr ?png] [] empty_world" by blast
  from t have 4: "download_pdf_attachments_A decode_ascii (without_non_pdf_A sample_mailbox_A)
       sample_args_A empty_world
     = download_pdf_attachments_A decode_ascii sample_mailbox_A sample_args_A empty_world" by simp
  from t have 5: "download_pdf_attachments_B (without_non_pdf_B sample_mailbox_B)
       sample_args_B empty_world
     = download_pdf_attachments_B sample_mailbox_B sample_args_B empty_world" by simp
  have u: "\<lparr>att_filename = ''photo.png'', att_content_type = ''application/pdf'', att_payload = ''PNG''\<rparr>
           = ?png\<lparr>att_content_type := ''application/pdf''\<rparr>" by simp
  show ?thesis
    unfolding u 3 1 2 4 5 by (simp add: evA evB)
qed

section \<open>Connection and login failures\<close>

lemma connect_or_login_A:
  "imap_connect mb = Some e \<or> imap_connect mb = None \<and> imap_login mb = Some e \<Longrightarrow>
   (case imap_connect mb of Some e \<Rightarrow> Some e | None \<Rightarrow> imap_login mb) = Some e"
  by auto

text \<open>
  C8. When connecting or logging in raises, the run of either fetcher ends there: the
  returned list is empty, the error is printed (once), and nothing else is done beyond the
  creation of the output directory. The result does not depend on anything else the
  mailbox would answer: there is no second attempt, no search and no fetch.
\<close>

theorem connection_failure_empty_result:
  "((imap_connect mbA = Some e \<or> imap_connect mbA = None \<and> imap_login mbA = Some e) \<longrightarrow>
      download_pdf_attachments_A decode mbA argsA w
      = (Inr [],
         print_line (''Error connecting to mail server: '' @ exn_text e)
           (ensure_output_dir (output_dir_A argsA) w)))
 \<and> ((mb_connect mbB = Some e \<or> mb_connect mbB = None \<and> mb_login mbB = Some e) \<longrightarrow>
      download_pdf_attachments_B mbB argsB w
      = ([],
         print_line ''Downloaded 0 PDF attachments''
           (print_line ''Ensure the IMAP server, email, and password are correct.''
              (print_line (''Error: '' @ exn_text e)
                 (debug_print (debug argsB)
                    (''Connecting to '' @ server argsB @ '':993 with email '' @ email argsB)
                    (ensure_output_dir (output_dir_B argsB) w))))))"
proof (intro conjI impI)
  assume "imap_connect mbA = Some e \<or> imap_connect mbA = None \<and> imap_login mbA = Some e"
  then have "(case imap_connect mbA of Some e \<Rightarrow> Some e | None \<Rightarrow> imap_login mbA) = Some e"
    by (rule connect_or_login_A)
  then show "download_pdf_attachments_A decode mbA argsA w
      = (Inr [],
         print_line (''Error connecting to mail server: '' @ exn_text e)
           (ensure_output_dir (output_dir_A argsA) w))"
    by (simp add: download_pdf_attachments_A_def)
next
  assume f: "mb_connect mbB = Some e \<or> mb_connect mbB = None \<and> mb_login mbB = Some e"
  have z: "str_int (int (length ([]::string list))) = ''0''"
    by (simp add: str_int_def dec_digits.simps digit_char_def)
  have "session_B mbB argsB (ensure_output_dir (output_dir_B argsB) w)
        = (Some e, [],
           debug_print (debug argsB)
             (''Connecting to '' @ server argsB @ '':993 with email '' @ email argsB)
             (ensure_output_dir (output_dir_B argsB) w))"
    using f by (auto simp: session_B_def)
  then show "download_pdf_attachments_B mbB argsB w
      = ([],
         print_line ''Downloaded 0 PDF attachments''
           (print_line ''Ensure the IMAP server, email, and password are correct.''
              (print_line (''Error: '' @ exn_text e)
                 (debug_print (debug argsB)
                    (''Connecting to '' @ server argsB @ '':993 with email '' @ email argsB)
                    (ensure_output_dir (output_dir_B argsB) w)))))"
    using z by (simp add: download_pdf_attachments_B_def)
qed

theorem connection_failure_empty_result_witness:
  "download_pdf_attachments_A decode_ascii
     (sample_mailbox_A\<lparr>imap_login := Some (Exception ''AUTHENTICATIONFAILED'')\<rparr>) sample_args_A empty_world
   = (Inr [],
      \<lparr>files = [(''pdfs'', Directory)],
       out = [''Created directory: pdfs'',
              ''Error connecting to mail server: AUTHENTICATIONFAILED'']\<rparr>)
 \<and> download_pdf_attachments_B
     (sample_mailbox_B\<lparr>mb_connect := Some (Exception ''Connection refused'')\<rparr>) sample_args_B empty_world
   = ([],
      \<lparr>files = [(''out'', Directory)],
       out = [''Created directory: out'', ''Error: Connection refused'',
              ''Ensure the IMAP server, email, and password are correct.'',
              ''Downloaded 0 PDF attachments'']\<rparr>)"
proof -
  have a: "imap_connect (sample_mailbox_A\<lparr>imap_login := Some (Exception ''AUTHENTICATIONFAILED'')\<rparr>)
             = Some (Exception ''AUTHENTICATIONFAILED'')
         \<or> imap_connect (sample_mailbox_A\<lparr>imap_login := Some (Exception ''AUTHENTICATIONFAILED'')\<rparr>) = None
           \<and> imap_login (sample_mailbox_A\<lparr>imap_login := Some (Exception ''AUTHENTICATIONFAILED'')\<rparr>)
             = Some (Exception ''AUTHENTICATIONFAILED'')"
    by (simp add: sample_mailbox_A_def)
  have b: "mb_connect (sample_mailbox_B\<lparr>mb_connect := Some (Exception ''Connection refused'')\<rparr>)
             = Some (Exception ''Connection refused'')
         \<or> mb_connect (sample_mailbox_B\<lparr>mb_connect := Some (Exception ''Connection refused'')\<rparr>) = None
           \<and> mb_login (sample_mailbox_B\<lparr>mb_connect := Some (Exception ''Connection refused'')\<rparr>)
             = Some (Exception ''Connection refused'')"
    by simp
  have wa: "ensure_output_dir (output_dir_A sample_args_A) empty_world
            = \<lparr>files = [(''pdfs'', Directory)], out = [''Created directory: pdfs'']\<rparr>"
    by (simp add: ensure_output_dir_def sample_args_A_def empty_world_def path_exists_def
          makedirs_def print_line_def)
  have wb: "ensure_output_dir (output_dir_B sample_args_B) empty_world
            = \<lparr>files = [(''out'', Directory)], out = [''Created directory: out'']\<rparr>"
    by (simp add: ensure_output_dir_def sample_args_B_def empty_world_def path_exists_def
          makedirs_def print_line_def)
  have db: "debug sample_args_B = False" by (simp add: sample_args_B_def)
  from connection_failure_empty_result
         [where mbA = "sample_mailbox_A\<lparr>imap_login := Some (Exception ''AUTHENTICATIONFAILED'')\<rparr>"
            and e = "Exception ''AUTHENTICATIONFAILED''" and decode = decode_ascii
            and argsA = sample_args_A and w = empty_world] a
  have 1: "download_pdf_attachments_A decode_ascii
     (sample_mailbox_A\<lparr>imap_login := Some (Exception ''AUTHENTICATIONFAILED'')\<rparr>) sample_args_A empty_world
     = (Inr [], print_line (''Error connecting to mail server: '' @ exn_text (Exception ''AUTHENTICATIONFAILED''))
                  (ensure_output_dir (output_dir_A sample_args_A) empty_world))"
    by blast
  from connection_failure_empty_result
         [where mbB = "sample_mailbox_B\<lparr>mb_connect := Some (Exception ''Connection refused'')\<rparr>"
            and e = "Exception ''Connection refused''"
            and argsB = sample_args_B and w = empty_world] b
  have 2: "download_pdf_attachments_B
     (sample_mailbox_B\<lparr>mb_connect := Some (Exception ''Connection refused'')\<rparr>) sample_args_B empty_world
      = ([],
         print_line ''Downloaded 0 PDF attachments''
           (print_line ''Ensure the IMAP server, email, and password are correct.''
              (print_line (''Error: '' @ exn_text (Exception ''Connection refused''))
                 (debug_print (debug sample_args_B)
                    (''Connecting to '' @ server sample_args_B @ '':993 with email '' @ email sample_args_B)
                    (ensure_output_dir (output_dir_B sample_args_B) empty_world)))))"
    by blast
  show ?thesis
    unfolding 1 2 wa wb db by (simp add: print_line_def debug_print_def)
qed

section \<open>Failures while processing messages\<close>

lemma process_parts_A_downloaded:
  "fst (snd (process_parts_A decode od subj parts df w))
   = df @ fst (snd (process_parts_A decode od subj parts [] w'))"
proof (induction parts arbitrary: df w w')
  case Nil
  then show ?case by simp
next
  case (Cons x parts)
  show ?case
  proof (cases x)
    case (Inl e)
    then show ?thesis by simp
  next
    case (Inr part)
    show ?thesis
    proof (cases "is_pdf_attachment_A part \<and> py_truthy_str (part_filename part)
                  \<and> (\<exists>c. clean_filename_A decode (PyStr (the (part_filename part))) = Inr c)
                  \<and> part_payload part \<noteq> None")
      case False
      then show ?thesis
        using Inr Cons.IH [of df w w']
        by (auto simp: py_truthy_str_def Let_def split: option.splits sum.splits)
    next
      case True
      then obtain fn c data where p: "part_filename part = Some fn" "fn \<noteq> []"
        "clean_filename_A decode (PyStr fn) = Inr c" "part_payload part = Some data"
        "is_pdf_attachment_A part"
        by (auto simp: py_truthy_str_def split: option.splits)
      let ?fp = "path_join od (subj @ ''_'' @ strftime_stamp (saved_at part) @ ''_'' @ c)"
      have l: "fst (snd (process_parts_A decode od subj (x # parts) df w))
               = (df @ [?fp]) @ fst (snd (process_parts_A decode od subj parts [] w'))"
        using Inr p Cons.IH [of "df @ [?fp]" _ w'] by (simp add: Let_def)
      have r: "fst (snd (process_parts_A decode od subj (x # parts) [] w'))
               = [?fp] @ fst (snd (process_parts_A decode od subj parts [] w'))"
        using Inr p Cons.IH [of "[?fp]" _ w'] by (simp add: Let_def)
      show ?thesis unfolding l r by simp
    qed
  qed
qed


lemma process_message_A_downloaded:
  "fst (snd (process_message_A decode mb od tot i message_id df w))
   = df @ message_files_A decode mb od message_id"
proof -
  have "fst (snd (process_message_A decode mb od tot i message_id df w))
        = df @ fst (snd (process_message_A decode mb od tot' i' message_id [] w'))"
    for tot' i' w'
    using process_parts_A_downloaded [of decode od _ _ df _ _]
    by (auto simp: process_message_A_def Let_def split: sum.splits prod.splits)
  then show ?thesis by (simp add: message_files_A_def)
qed

lemma process_messages_A_downloaded:
  "fst (process_messages_A decode mb od tot i ids df w)
   = df @ concat (map (message_files_A decode mb od) ids)"
proof (induction ids arbitrary: i df w)
  case Nil
  then show ?case by simp
next
  case (Cons message_id ids)
  obtain r d w1 where p: "process_message_A decode mb od tot i message_id df w = (r, d, w1)"
    by (cases "process_message_A decode mb od tot i message_id df w")
  have d: "d = df @ message_files_A decode mb od message_id"
    using process_message_A_downloaded [of decode mb od tot i message_id df w] p by simp
  show ?case
    using p d Cons.IH by (cases r) simp_all
qed


























section \<open>Parts without a filename (Fetcher A)\<close>

lemma process_parts_A_unnamed:
  assumes "part_filename part = None \<or> part_filename part = Some []"
  shows "process_parts_A decode od subj (Inr part # parts) df w
         = process_parts_A decode od subj parts df w"
  using assms by auto

lemma named_part_paths_Cons: "named_part_paths od subj parts \<subseteq> named_part_paths od subj (x # parts)"
  by (auto simp: named_part_paths_def)

lemma named_part_paths_head:
  "part_filename part = Some fn \<Longrightarrow> fn \<noteq> [] \<Longrightarrow>
   path_join od (subj @ ''_'' @ strftime_stamp (saved_at part) @ ''_'' @ map underscore_reserved fn)
   \<in> named_part_paths od subj (Inr part # parts)"
  by (auto simp: named_part_paths_def)

lemma process_parts_A_paths:
  "set (fst (snd (process_parts_A decode od subj parts df w)))
     \<subseteq> set df \<union> named_part_paths od subj parts
   \<and> set (map fst (files (snd (snd (process_parts_A decode od subj parts df w)))))
     \<subseteq> set (map fst (files w)) \<union> named_part_paths od subj parts"
proof (induction parts arbitrary: df w)
  case Nil
  then show ?case by simp
next
  case (Cons x parts)
  show ?case
  proof (cases x)
    case (Inl e)
    then show ?thesis by simp
  next
    case (Inr part)
    note sub = named_part_paths_Cons [of od subj parts x]
    show ?thesis
    proof (cases "is_pdf_attachment_A part \<and> (\<exists>fn. part_filename part = Some fn \<and> fn \<noteq> [])")
      case False
      then have "process_parts_A decode od subj (x # parts) df w
                 = process_parts_A decode od subj parts df w"
        using Inr by (auto split: option.splits)
      then show ?thesis using Cons.IH [of df w] sub by auto
    next
      case True
      then obtain fn where fn: "part_filename part = Some fn" "fn \<noteq> []" and pdf: "is_pdf_attachment_A part"
        by auto
      let ?fp = "path_join od (subj @ ''_'' @ strftime_stamp (saved_at part) @ ''_''
                               @ map underscore_reserved fn)"
      have mem: "?fp \<in> named_part_paths od subj (x # parts)"
        unfolding Inr using fn by (rule named_part_paths_head)
      have cl: "clean_filename_A decode (PyStr fn) = Inr (map underscore_reserved fn)"
        using fn(2) by (rule clean_filename_A_str)
      show ?thesis
      proof (cases "part_payload part")
        case None
        then have "process_parts_A decode od subj (x # parts) df w
                   = (Some none_payload_error, df, w\<lparr>files := write_file ?fp [] (files w)\<rparr>)"
          using Inr fn pdf cl by (simp add: Let_def)
        then show ?thesis using mem by (auto simp: write_file_def)
      next
        case (Some data)
        then have "process_parts_A decode od subj (x # parts) df w
                   = process_parts_A decode od subj parts (df @ [?fp])
                       (print_line (''Downloaded: '' @ ?fp) (w\<lparr>files := write_file ?fp data (files w)\<rparr>))"
          using Inr fn pdf cl by (simp add: Let_def)
        then show ?thesis
          using Cons.IH [of "df @ [?fp]"
                  "print_line (''Downloaded: '' @ ?fp) (w\<lparr>files := write_file ?fp data (files w)\<rparr>)"]
                mem sub
          by (auto simp: write_file_def)
      qed
    qed
  qed
qed

lemma dec_digits_last: "dec_digits n \<noteq> [] \<and> last (dec_digits n) = digit_char (n mod 10)"
  by (cases "n < 10") (simp_all add: dec_digits.simps [of n])

lemma digit_char_is_digit: "k < 10 \<Longrightarrow> digit_char k \<in> set ''0123456789''"
  unfolding digit_char_def by (rule nth_mem) simp

lemma dec_digits_has_digit: "\<exists>c\<in>set (dec_digits n). c \<in> set ''0123456789''"
proof -
  have "last (dec_digits n) \<in> set (dec_digits n)"
    using dec_digits_last [of n] last_in_set [of "dec_digits n"] by blast
  moreover have "last (dec_digits n) \<in> set ''0123456789''"
    using dec_digits_last [of n] digit_char_is_digit [of "n mod 10"] by simp
  ultimately show ?thesis by blast
qed

lemma format_02d_has_digit: "\<exists>c\<in>set (format_02d n). c \<in> set ''0123456789''"
proof (cases "n < 0")
  case True
  then show ?thesis using dec_digits_has_digit [of "nat (- n)"] by (auto simp: format_02d_def)
next
  case False
  then show ?thesis using dec_digits_has_digit [of "nat n"] by (auto simp: format_02d_def)
qed

lemma strftime_stamp_has_digit: "\<exists>c\<in>set (strftime_stamp d). c \<in> set ''0123456789''"
  using format_02d_has_digit [of "second d"] by (auto simp: strftime_stamp_def)

lemma default_name_no_digit: "c \<in> set default_name \<Longrightarrow> c \<notin> set ''0123456789''"
  by (auto simp: default_name_def)

lemma stamped_name_not_default:
  assumes "CHR ''/'' \<notin> set subj"
  shows "path_join od (subj @ ''_'' @ strftime_stamp d @ ''_'' @ name) \<noteq> path_join od default_name"
proof
  let ?u = "subj @ ''_'' @ strftime_stamp d @ ''_'' @ name"
  assume eq: "path_join od ?u = path_join od default_name"
  have "(?u \<noteq> [] \<and> hd ?u = CHR ''/'') = (default_name \<noteq> [] \<and> hd default_name = CHR ''/'')"
    using assms by (cases subj) (auto simp: default_name_def)
  with eq have u: "?u = default_name" by (rule path_join_inj)
  obtain c where c: "c \<in> set (strftime_stamp d)" "c \<in> set ''0123456789''"
    using strftime_stamp_has_digit by blast
  then have "c \<in> set ?u" by simp
  with u have "c \<in> set default_name" by simp
  with c(2) show False using default_name_no_digit by blast
qed

lemma subject_A_no_slash:
  assumes "subject_A decode msg = Inr subj"
  shows "CHR ''/'' \<notin> set subj"
proof (cases "py_truthy_str (subject_header msg)")
  case False
  with assms show ?thesis by (auto simp: subject_A_def)
next
  case True
  with assms obtain s where "clean_filename_A decode (PyStr s) = Inr subj"
    by (auto simp: subject_A_def split: sum.splits)
  then have "set subj \<inter> set reserved = {}" by (rule clean_filename_A_result_clean)
  then show ?thesis by (auto simp: reserved_def)
qed

lemma named_part_paths_not_default:
  "CHR ''/'' \<notin> set subj \<Longrightarrow> path_join od default_name \<notin> named_part_paths od subj parts"
proof
  assume s: "CHR ''/'' \<notin> set subj" and "path_join od default_name \<in> named_part_paths od subj parts"
  then obtain d name where "path_join od default_name
      = path_join od (subj @ ''_'' @ strftime_stamp d @ ''_'' @ name)"
    unfolding named_part_paths_def by blast
  then show False using stamped_name_not_default [OF s, of od d name] by simp
qed

lemma message_files_A_not_default:
  "path_join od default_name \<notin> set (message_files_A decode mb od message_id)"
proof -
  let ?w1 = "print_line (''Processing message '' @ str_int (int 0 + 1) @ ''/''
                           @ str_int (int 0) @ ''...'') empty_world"
  have parts: "path_join od default_name
               \<notin> set (fst (snd (process_parts_A decode od subj ps [] w)))"
    if "CHR ''/'' \<notin> set subj" for subj ps w
    using process_parts_A_paths [of decode od subj ps "[]" w] named_part_paths_not_default [OF that]
    by auto
  show ?thesis
    unfolding message_files_A_def process_message_A_def
    using parts subject_A_no_slash
    by (auto simp: Let_def split: sum.splits prod.splits)
qed

text \<open>
  C10. In Fetcher A a part whose filename is absent (or empty) is passed over silently,
  also when it is a PDF attachment: the loop goes on with the list, the file system and
  the output as they were. Every path that the loop adds to the list or to the file
  system is built from the sanitized non-empty filename of one of the parts, so the
  default of \<open>clean_filename\<close> never stands in for a missing name; and no path that a
  message contributes is \<open>unnamed_attachment.pdf\<close> in the output directory.
\<close>

theorem unnamed_pdf_part_skipped:
  "((part_filename part = None \<or> part_filename part = Some []) \<longrightarrow>
      process_parts_A decode od subj (Inr part # parts) df w
      = process_parts_A decode od subj parts df w)
 \<and> set (fst (snd (process_parts_A decode od subj parts df w)))
     \<subseteq> set df \<union> named_part_paths od subj parts
 \<and> set (map fst (files (snd (snd (process_parts_A decode od subj parts df w)))))
     \<subseteq> set (map fst (files w)) \<union> named_part_paths od subj parts
 \<and> path_join od default_name \<notin> set (message_files_A decode mb od message_id)"
proof (intro conjI impI)
  assume "part_filename part = None \<or> part_filename part = Some []"
  then show "process_parts_A decode od subj (Inr part # parts) df w
             = process_parts_A decode od subj parts df w"
    by (rule process_parts_A_unnamed)
next
  show "set (fst (snd (process_parts_A decode od subj parts df w)))
        \<subseteq> set df \<union> named_part_paths od subj parts"
    using process_parts_A_paths by blast
next
  show "set (map fst (files (snd (snd (process_parts_A decode od subj parts df w)))))
        \<subseteq> set (map fst (files w)) \<union> named_part_paths od subj parts"
    using process_parts_A_paths by blast
next
  show "path_join od default_name \<notin> set (message_files_A decode mb od message_id)"
    by (rule message_files_A_not_default)
qed

theorem unnamed_pdf_part_skipped_witness:
  "is_pdf_attachment_A (sample_part ''attachment'' ''application/pdf'' None)
 \<and> process_parts_A decode_ascii ''pdfs'' ''Invoice''
       [Inr (sample_part ''attachment'' ''application/pdf'' None)] [] empty_world
     = (None, [], empty_world)
 \<and> process_parts_A decode_ascii ''pdfs'' ''Invoice''
       [Inr (sample_part ''attachment'' ''application/pdf'' (Some ''''))] [] empty_world
     = (None, [], empty_world)"
proof -
  have p: "is_pdf_attachment_A (sample_part ''attachment'' ''application/pdf'' None)"
    by (simp add: is_pdf_attachment_A_def sample_part_def)
  have n: "part_filename (sample_part ''attachment'' ''application/pdf'' None) = None
           \<or> part_filename (sample_part ''attachment'' ''application/pdf'' None) = Some []"
    by (simp add: sample_part_def)
  have e: "part_filename (sample_part ''attachment'' ''application/pdf'' (Some '''')) = None
           \<or> part_filename (sample_part ''attachment'' ''application/pdf'' (Some '''')) = Some []"
    by (simp add: sample_part_def)
  have 1: "process_parts_A decode_ascii ''pdfs'' ''Invoice''
             [Inr (sample_part ''attachment'' ''application/pdf'' None)] [] empty_world
           = process_parts_A decode_ascii ''pdfs'' ''Invoice'' [] [] empty_world"
    using unnamed_pdf_part_skipped
            [where part = "sample_part ''attachment'' ''application/pdf'' None" and parts = "[]"
               and decode = decode_ascii and od = "''pdfs''" and subj = "''Invoice''" and df = "[]"
               and w = empty_world] n
    by blast
  have 2: "process_parts_A decode_ascii ''pdfs'' ''Invoice''
             [Inr (sample_part ''attachment'' ''application/pdf'' (Some ''''))] [] empty_world
           = process_parts_A decode_ascii ''pdfs'' ''Invoice'' [] [] empty_world"
    using unnamed_pdf_part_skipped
            [where part = "sample_part ''attachment'' ''application/pdf'' (Some '''')" and parts = "[]"
               and decode = decode_ascii and od = "''pdfs''" and subj = "''Invoice''" and df = "[]"
               and w = empty_world] e
    by blast
  show ?thesis unfolding 1 2 using p by simp
qed

section \<open>The date bound of \<open>days_limit\<close>\<close>

lemmas date_defs = minus_days_def toordinal_def ymd2ord_def ord2ymd_def days_before_year_def
  days_before_month_def days_before_month_table_def days_in_month_table_def is_leap_def
  strftime_d_b_Y_def month_abbr_def

lemma bound_eval: "minus_days run_clock 7 = Inr (run_clock\<lparr>day := 8\<rparr>)"
  by (simp add: date_defs run_clock_def Let_def)

lemma since_fields:
  "days_limit_A since_args_A = Some 7" "search_criteria since_args_A = ''ALL''"
  by (simp_all add: since_args_A_def sample_args_A_def)

lemma stamp_eval: "strftime_d_b_Y (run_clock\<lparr>day := 8\<rparr>) = ''08-Jan-2025''"
  by (simp add: strftime_d_b_Y_def month_abbr_def run_clock_def
        format_02d_def str_int_def dec_digits.simps digit_char_def)

lemma search_criteria_A_bound:
  assumes "days_limit_A args = Some n" "n \<noteq> 0" "minus_days now n = Inr bound"
  shows "search_criteria_A now args
         = Inr (''(SINCE '' @ strftime_d_b_Y bound @ '') '' @ search_criteria args)"
  using assms by (simp add: search_criteria_A_def)

lemma download_A_after_search:
  assumes "imap_connect mb = None" "imap_login mb = None" "imap_select mb = None"
    and "search_criteria_A (imap_now mb) args = Inr q"
    and "imap_search mb q = Inr (status, ids)"
  shows "download_pdf_attachments_A decode mb args w =
     (let w2 = print_line (''Successfully connected to '' @ imap_server args)
                 (ensure_output_dir (output_dir_A args) w)
      in if status \<noteq> ''OK'' then
           (case imap_logout mb of
              Some e \<Rightarrow> (Inl e, print_line ''No messages found!'' w2)
            | None \<Rightarrow> (Inr [], print_line ''No messages found!'' w2))
         else
           (case process_messages_A decode mb (output_dir_A args) (length ids) 0 ids []
                   (print_line (''Found '' @ str_int (int (length ids))
                                @ '' messages matching criteria'') w2) of
              (downloaded_files, w4) \<Rightarrow>
                (case imap_logout mb of
                   Some e \<Rightarrow> (Inl e, w4)
                 | None \<Rightarrow>
                     (Inr downloaded_files,
                      print_line (''Downloaded '' @ str_int (int (length downloaded_files))
                                  @ '' PDF attachments'') w4))))"
  by (simp add: download_pdf_attachments_A_def Let_def assms)

lemma since_mailbox_fields:
  "imap_now since_mailbox_A = run_clock"
  "imap_connect since_mailbox_A = None" "imap_login since_mailbox_A = None"
  "imap_select since_mailbox_A = None" "imap_logout since_mailbox_A = None"
  "imap_search since_mailbox_A ''(SINCE 08-Jan-2025) ALL'' = Inr (''OK'', [''1''])"
  by (simp_all add: since_mailbox_A_def)

lemma since_criteria_eval:
  "search_criteria_A (imap_now since_mailbox_A) since_args_A = Inr ''(SINCE 08-Jan-2025) ALL''"
  unfolding search_criteria_A_def since_fields since_mailbox_fields by (simp add: bound_eval stamp_eval)

lemma since_download_eval:
  "download_pdf_attachments_A decode_ascii since_mailbox_A since_args_A empty_world
   = (Inr [''pdfs/Invoice_20250115_180000_x.pdf''],
      \<lparr>files = [(''pdfs/Invoice_20250115_180000_x.pdf'', RegularFile ''data''),
                (''pdfs'', Directory)],
       out = [''Created directory: pdfs'', ''Successfully connected to imap.gmail.com'',
              ''Found 1 messages matching criteria'', ''Processing message 1/1...'',
              ''Downloaded: pdfs/Invoice_20250115_180000_x.pdf'',
              ''Downloaded 1 PDF attachments'']\<rparr>)"
  by (simp add: eval_defs date_defs since_mailbox_A_def since_message_A_def since_args_A_def
        sample_args_A_def run_clock_def empty_world_def)

text \<open>
  C5, as stated, fails for a message of the bound's own day. The run is at 18:00 on
  15 January 2025 with \<open>days_limit = 7\<close>; message 1 is dated 8 January 2025, 09:00, seven
  days and nine hours before the run. Line 60 keeps only the date of the bound, the query
  is \<open>(SINCE 08-Jan-2025) ALL\<close>, the server answers with message 1, and its PDF is
  downloaded.
\<close>

theorem message_of_bound_day_downloaded:
  "search_criteria_A (imap_now since_mailbox_A) since_args_A = Inr ''(SINCE 08-Jan-2025) ALL''
 \<and> imap_search since_mailbox_A ''(SINCE 08-Jan-2025) ALL'' = Inr (''OK'', [''1''])
 \<and> since_dates ''1'' = \<lparr>year = 2025, month = 1, day = 8, hour = 9, minute = 0, second = 0\<rparr>
 \<and> imap_now since_mailbox_A
     = \<lparr>year = 2025, month = 1, day = 15, hour = 18, minute = 0, second = 0\<rparr>
 \<and> toordinal (imap_now since_mailbox_A) - toordinal (since_dates ''1'') = 7
 \<and> hour (since_dates ''1'') < hour (imap_now since_mailbox_A)
 \<and> fst (download_pdf_attachments_A decode_ascii since_mailbox_A since_args_A empty_world)
     = Inr [''pdfs/Invoice_20250115_180000_x.pdf'']"
proof (intro conjI)
  show "search_criteria_A (imap_now since_mailbox_A) since_args_A = Inr ''(SINCE 08-Jan-2025) ALL''"
    by (rule since_criteria_eval)
  show "imap_search since_mailbox_A ''(SINCE 08-Jan-2025) ALL'' = Inr (''OK'', [''1''])"
    by (rule since_mailbox_fields)
  show "since_dates ''1'' = \<lparr>year = 2025, month = 1, day = 8, hour = 9, minute = 0, second = 0\<rparr>"
    by (simp add: since_dates_def message_1_date_def)
  show "imap_now since_mailbox_A
        = \<lparr>year = 2025, month = 1, day = 15, hour = 18, minute = 0, second = 0\<rparr>"
    by (simp add: since_mailbox_A_def run_clock_def)
  show "toordinal (imap_now since_mailbox_A) - toordinal (since_dates ''1'') = 7"
    by (simp add: since_mailbox_fields since_dates_def message_1_date_def run_clock_def date_defs)
  show "hour (since_dates ''1'') < hour (imap_now since_mailbox_A)"
    by (simp add: since_mailbox_fields since_dates_def message_1_date_def run_clock_def)
  show "fst (download_pdf_attachments_A decode_ascii since_mailbox_A since_args_A empty_world)
        = Inr [''pdfs/Invoice_20250115_180000_x.pdf'']"
    by (simp add: since_download_eval)
qed

lemma is_digit_digit_char: "d < 10 \<Longrightarrow> is_digit (digit_char d)"
proof -
  assume "d < 10"
  then have "d \<in> {0, 1, 2, 3, 4, 5, 6, 7, 8, 9}" by auto
  then show ?thesis by (auto simp: is_digit_def digit_char_def)
qed

lemma digit_char_not_dash: "d < 10 \<Longrightarrow> digit_char d \<noteq> CHR ''-''"
  using is_digit_digit_char [of d] by (auto simp: is_digit_def)

lemma parse_number_2:
  "a < 10 \<Longrightarrow> b < 10 \<Longrightarrow> parse_number [digit_char a, digit_char b] = Some (10 * a + b)"
  by (simp add: parse_number_def is_digit_digit_char digits_val_def digit_val_digit_char)

lemma parse_number_4:
  "a < 10 \<Longrightarrow> b < 10 \<Longrightarrow> c < 10 \<Longrightarrow> d < 10 \<Longrightarrow>
   parse_number [digit_char a, digit_char b, digit_char c, digit_char d]
   = Some (1000 * a + 100 * b + 10 * c + d)"
  by (simp add: parse_number_def is_digit_digit_char digits_val_def digit_val_digit_char)

lemma month_abbr_parse:
  assumes "1 \<le> m" "m \<le> 12"
  shows "length (month_abbr ! nat (m - 1)) = 3
       \<and> month_number (month_abbr ! nat (m - 1)) = Some m"
proof -
  from assms have "m = 1 \<or> m = 2 \<or> m = 3 \<or> m = 4 \<or> m = 5 \<or> m = 6 \<or> m = 7 \<or> m = 8 \<or> m = 9
                   \<or> m = 10 \<or> m = 11 \<or> m = 12" by arith
  then show ?thesis
    by (elim disjE) (simp_all add: month_abbr_def month_number_def)
qed

lemma strftime_d_b_Y_shape:
  assumes "1000 \<le> year b" "year b \<le> 9999" "1 \<le> month b" "month b \<le> 12"
    "1 \<le> day b" "day b \<le> 31"
  shows "\<exists>m1 m2 m3.
           month_number [m1, m2, m3] = Some (month b)
         \<and> strftime_d_b_Y b
             = [digit_char (nat (day b) div 10), digit_char (nat (day b) mod 10), CHR ''-'',
                m1, m2, m3, CHR ''-'',
                digit_char (nat (year b) div 1000), digit_char (nat (year b) div 100 mod 10),
                digit_char (nat (year b) div 10 mod 10), digit_char (nat (year b) mod 10)]"
proof -
  let ?mon = "month_abbr ! nat (month b - 1)"
  have l: "length ?mon = 3" and mn: "month_number ?mon = Some (month b)"
    using month_abbr_parse [OF assms(3) assms(4)] by simp_all
  from l obtain m1 m2 m3 where mon: "?mon = [m1, m2, m3]"
    by (auto simp: length_Suc_conv numeral_3_eq_3)
  have d: "format_02d (day b) = [digit_char (nat (day b) div 10), digit_char (nat (day b) mod 10)]"
    using assms(5) assms(6) by (intro format_02d_two_digits) simp_all
  have y: "str_int (year b)
           = [digit_char (nat (year b) div 1000), digit_char (nat (year b) div 100 mod 10),
              digit_char (nat (year b) div 10 mod 10), digit_char (nat (year b) mod 10)]"
    using assms(1) assms(2) by (simp add: str_int_def dec_digits_4)
  show ?thesis
    using mn by (auto simp: strftime_d_b_Y_def mon d y)
qed


lemma parse_number_day:
  assumes "1 \<le> d" "d \<le> 31"
  shows "parse_number [digit_char (nat d div 10), digit_char (nat d mod 10)]
            = Some (nat d)"
proof -
  have "nat d div 10 < 10" using assms by simp
  then have "parse_number [digit_char (nat d div 10), digit_char (nat d mod 10)]
             = Some (10 * (nat d div 10) + nat d mod 10)"
    by (intro parse_number_2) simp_all
  then show ?thesis by simp
qed

lemma four_digits:
  "1000 * (n div 1000) + 100 * (n div 100 mod 10) + 10 * (n div 10 mod 10) + n mod 10 = (n::nat)"
proof -
  have a: "n = 10 * (n div 10) + n mod 10" by simp
  have b: "n div 10 = 10 * (n div 100) + n div 10 mod 10"
    using div_mult2_eq [of n 10 10] by simp
  have c: "n div 100 = 10 * (n div 1000) + n div 100 mod 10"
    using div_mult2_eq [of n 100 10] by simp
  show ?thesis using a b c by linarith
qed

lemma parse_number_year:
  assumes "1000 \<le> y" "y \<le> 9999"
  shows "parse_number [digit_char (nat y div 1000), digit_char (nat y div 100 mod 10),
                digit_char (nat y div 10 mod 10), digit_char (nat y mod 10)]
            = Some (nat y)"
proof -
  have "nat y div 1000 < 10" using assms by simp
  then have "parse_number [digit_char (nat y div 1000), digit_char (nat y div 100 mod 10),
                digit_char (nat y div 10 mod 10), digit_char (nat y mod 10)]
          = Some (1000 * (nat y div 1000) + 100 * (nat y div 100 mod 10)
                  + 10 * (nat y div 10 mod 10) + nat y mod 10)"
    by (intro parse_number_4) simp_all
  then show ?thesis unfolding four_digits .
qed

lemma parse_date_shape:
  assumes "parse_number [d1, d2] = Some d" "month_number [m1, m2, m3] = Some m"
    "parse_number [y1, y2, y3, y4] = Some y"
  shows "parse_date [d1, d2, CHR ''-'', m1, m2, m3, CHR ''-'', y1, y2, y3, y4]
         = Some (int y, m, int d)"
  by (simp add: parse_date_def assms)

lemma parse_date_strftime:
  assumes "1000 \<le> year b" "year b \<le> 9999" "1 \<le> month b" "month b \<le> 12"
    "1 \<le> day b" "day b \<le> 31"
  shows "length (strftime_d_b_Y b) = 11
       \<and> parse_date (strftime_d_b_Y b) = Some (year b, month b, day b)"
proof -
  obtain m1 m2 m3 where mn: "month_number [m1, m2, m3] = Some (month b)"
    and s: "strftime_d_b_Y b
             = [digit_char (nat (day b) div 10), digit_char (nat (day b) mod 10), CHR ''-'',
                m1, m2, m3, CHR ''-'',
                digit_char (nat (year b) div 1000), digit_char (nat (year b) div 100 mod 10),
                digit_char (nat (year b) div 10 mod 10), digit_char (nat (year b) mod 10)]"
    using strftime_d_b_Y_shape [OF assms] by blast
  have dd: "parse_number [digit_char (nat (day b) div 10), digit_char (nat (day b) mod 10)]
            = Some (nat (day b))"
    using assms(5) assms(6) by (rule parse_number_day)
  have yy: "parse_number [digit_char (nat (year b) div 1000), digit_char (nat (year b) div 100 mod 10),
                digit_char (nat (year b) div 10 mod 10), digit_char (nat (year b) mod 10)]
            = Some (nat (year b))"
    using assms(1) assms(2) by (rule parse_number_year)
  have len: "length (strftime_d_b_Y b) = 11" by (simp add: s)
  have i: "int (nat (year b)) = year b" "int (nat (day b)) = day b"
    using assms(1) assms(5) by simp_all
  have "parse_date (strftime_d_b_Y b) = Some (int (nat (year b)), month b, int (nat (day b)))"
    using parse_date_shape [OF dd mn yy] by (simp only: s)
  then show ?thesis using len by (simp only: i simp_thms)
qed

lemma parse_since_strftime:
  assumes "1000 \<le> year b" "year b \<le> 9999" "1 \<le> month b" "month b \<le> 12"
    "1 \<le> day b" "day b \<le> 31"
  shows "parse_since (''(SINCE '' @ strftime_d_b_Y b @ '') '' @ c)
         = Some ((year b, month b, day b), c)"
proof -
  have l: "length (strftime_d_b_Y b) = 11"
    and p: "parse_date (strftime_d_b_Y b) = Some (year b, month b, day b)"
    using parse_date_strftime [OF assms] by simp_all
  show ?thesis
    by (simp add: parse_since_def l p)
qed

lemma month_day_range:
  assumes n: "0 \<le> n" "n \<le> 364"
  shows "(let m = (n + 50) div 32;
              preceding = days_before_month_table ! nat (m - 1)
                            + (if m > 2 \<and> leapyear then 1 else 0)
          in if preceding > n
             then 1 \<le> m - 1 \<and> m - 1 \<le> 12
                  \<and> 1 \<le> n - (preceding - (days_in_month_table ! nat (m - 2)
                                         + (if m - 1 = 2 \<and> leapyear then 1 else 0))) + 1
                  \<and> n - (preceding - (days_in_month_table ! nat (m - 2)
                                         + (if m - 1 = 2 \<and> leapyear then 1 else 0))) + 1 \<le> 31
             else 1 \<le> m \<and> m \<le> 12 \<and> 1 \<le> n - preceding + 1 \<and> n - preceding + 1 \<le> 31)"
proof -
  define m where "m = (n + 50) div 32"
  have mr: "1 \<le> m" "m \<le> 12" using n unfolding m_def by simp_all
  have nm: "32 * m - 50 \<le> n" "n \<le> 32 * m - 19" unfolding m_def by simp_all
  from mr have "m = 1 \<or> m = 2 \<or> m = 3 \<or> m = 4 \<or> m = 5 \<or> m = 6 \<or> m = 7 \<or> m = 8 \<or> m = 9
                   \<or> m = 10 \<or> m = 11 \<or> m = 12" by arith
  then have "(let preceding = days_before_month_table ! nat (m - 1)
                            + (if m > 2 \<and> leapyear then 1 else 0)
          in if preceding > n
             then 1 \<le> m - 1 \<and> m - 1 \<le> 12
                  \<and> 1 \<le> n - (preceding - (days_in_month_table ! nat (m - 2)
                                         + (if m - 1 = 2 \<and> leapyear then 1 else 0))) + 1
                  \<and> n - (preceding - (days_in_month_table ! nat (m - 2)
                                         + (if m - 1 = 2 \<and> leapyear then 1 else 0))) + 1 \<le> 31
             else 1 \<le> m \<and> m \<le> 12 \<and> 1 \<le> n - preceding + 1 \<and> n - preceding + 1 \<le> 31)"
    using nm n
    by (elim disjE)
       (simp_all add: days_before_month_table_def days_in_month_table_def Let_def)
  then show ?thesis unfolding m_def Let_def .
qed

lemma year_upper:
  fixes n0 q400 r400 q100 r100 q4 r4 q1 r1 :: int
  assumes "n0 \<le> 3652058"
    "n0 = 146097 * q400 + r400" "0 \<le> r400" "r400 < 146097"
    "r400 = 36524 * q100 + r100" "0 \<le> r100" "r100 < 36524"
    "r100 = 1461 * q4 + r4" "0 \<le> r4" "r4 < 1461"
    "r4 = 365 * q1 + r1" "0 \<le> r1" "r1 < 365"
  shows "q400 * 400 + q100 * 100 + q4 * 4 + q1 \<le> 9998"
proof -
  have b1: "q1 \<le> 4" using assms by linarith
  have b4: "q4 \<le> 24" using assms by linarith
  have b100: "q100 \<le> 4" using assms by linarith
  have b400: "q400 \<le> 24" using assms by linarith
  show ?thesis
  proof (cases "q400 \<le> 23")
    case True
    then show ?thesis using b1 b4 b100 by linarith
  next
    case False
    then have a: "q400 = 24" using b400 by linarith
    then have r400: "r400 \<le> 145730" using assms by linarith
    then have c100: "q100 \<le> 3" using assms by linarith
    show ?thesis
    proof (cases "q100 \<le> 2")
      case True
      then show ?thesis using a b1 b4 by linarith
    next
      case False
      then have b: "q100 = 3" using c100 by linarith
      then have r100: "r100 \<le> 36158" using r400 assms by linarith
      show ?thesis
      proof (cases "q4 \<le> 23")
        case True
        then show ?thesis using a b b1 by linarith
      next
        case False
        then have c: "q4 = 24" using b4 by linarith
        then have "r4 \<le> 1094" using r100 assms by linarith
        then have "q1 \<le> 2" using assms by linarith
        then show ?thesis using a b c by linarith
      qed
    qed
  qed
qed

lemma ord2ymd_range:
  assumes "0 < ordinal" "ordinal \<le> 3652059"
  shows "(case ord2ymd ordinal of
            (y, m, d) \<Rightarrow> 1 \<le> y \<and> y \<le> 9999 \<and> 1 \<le> m \<and> m \<le> 12 \<and> 1 \<le> d \<and> d \<le> 31)"
proof -
  define n0 where "n0 = ordinal - 1"
  define q400 where "q400 = n0 div 146097"
  define r400 where "r400 = n0 mod 146097"
  define q100 where "q100 = r400 div 36524"
  define r100 where "r100 = r400 mod 36524"
  define q4 where "q4 = r100 div 1461"
  define r4 where "r4 = r100 mod 1461"
  define q1 where "q1 = r4 div 365"
  define r1 where "r1 = r4 mod 365"
  define y where "y = q400 * 400 + 1 + q100 * 100 + q4 * 4 + q1"
  define leapyear where "leapyear = (q1 = 3 \<and> (q4 \<noteq> 24 \<or> q100 = 3))"
  have n0: "0 \<le> n0" "n0 \<le> 3652058" using assms by (simp_all add: n0_def)
  have d400: "n0 = 146097 * q400 + r400" "0 \<le> r400" "r400 < 146097"
    by (simp_all add: q400_def r400_def)
  have d100: "r400 = 36524 * q100 + r100" "0 \<le> r100" "r100 < 36524"
    by (simp_all add: q100_def r100_def)
  have d4: "r100 = 1461 * q4 + r4" "0 \<le> r4" "r4 < 1461"
    by (simp_all add: q4_def r4_def)
  have d1: "r4 = 365 * q1 + r1" "0 \<le> r1" "r1 < 365"
    by (simp_all add: q1_def r1_def)
  have q: "0 \<le> q400" "0 \<le> q100" "0 \<le> q4" "0 \<le> q1"
    using n0(1) d400(2) d100(2) d4(2)
    by (simp_all add: q400_def q100_def q4_def q1_def pos_imp_zdiv_nonneg_iff)
  have v: "q400 * 400 + q100 * 100 + q4 * 4 + q1 \<le> 9998"
    using n0(2) d400 d100 d4 d1 by (rule year_upper)
  have yl: "1 \<le> y" using q unfolding y_def by linarith
  have yu: "y \<le> 9999" using v unfolding y_def by linarith
  have yl': "1 \<le> y - 1" if "q1 = 4 \<or> q100 = 4"
    using q that unfolding y_def by linarith
  have e: "ord2ymd ordinal =
     (if q1 = 4 \<or> q100 = 4 then (y - 1, 12, 31)
      else
        (let m = (r1 + 50) div 32;
             preceding = days_before_month_table ! nat (m - 1)
                           + (if m > 2 \<and> leapyear then 1 else 0)
         in if preceding > r1
            then (y, m - 1,
                  r1 - (preceding - (days_in_month_table ! nat (m - 2)
                                      + (if m - 1 = 2 \<and> leapyear then 1 else 0))) + 1)
            else (y, m, r1 - preceding + 1)))"
    unfolding ord2ymd_def Let_def y_def leapyear_def r1_def q1_def r4_def q4_def r100_def q100_def
      r400_def q400_def n0_def
    by (rule refl)
  show ?thesis
  proof (cases "q1 = 4 \<or> q100 = 4")
    case True
    have "1 \<le> y - 1" using True by (rule yl')
    moreover have "y - 1 \<le> 9999" using yu by linarith
    ultimately show ?thesis unfolding e using True by simp
  next
    case False
    have r: "0 \<le> r1" "r1 \<le> 364" using d1 by simp_all
    define m where "m = (r1 + 50) div 32"
    define preceding where
      "preceding = days_before_month_table ! nat (m - 1) + (if m > 2 \<and> leapyear then 1 else 0)"
    define dd where
      "dd = r1 - (preceding - (days_in_month_table ! nat (m - 2)
                                + (if m - 1 = 2 \<and> leapyear then 1 else 0))) + 1"
    have md: "if preceding > r1
              then 1 \<le> m - 1 \<and> m - 1 \<le> 12 \<and> 1 \<le> dd \<and> dd \<le> 31
              else 1 \<le> m \<and> m \<le> 12 \<and> 1 \<le> r1 - preceding + 1 \<and> r1 - preceding + 1 \<le> 31"
      using month_day_range [OF r, of leapyear]
      unfolding Let_def m_def preceding_def dd_def .
    have e': "ord2ymd ordinal = (if preceding > r1 then (y, m - 1, dd) else (y, m, r1 - preceding + 1))"
      using False unfolding e Let_def m_def preceding_def dd_def by (simp only: if_False)
    show ?thesis
    proof (cases "preceding > r1")
      case True
      then show ?thesis using md yl yu unfolding e' by simp
    next
      case False
      then show ?thesis using md yl yu unfolding e' by simp
    qed
  qed
qed

lemma minus_days_valid:
  assumes "minus_days d n = Inr b"
  shows "1 \<le> year b \<and> year b \<le> 9999 \<and> 1 \<le> month b \<and> month b \<le> 12
       \<and> 1 \<le> day b \<and> day b \<le> 31"
proof -
  let ?days = "toordinal d - n"
  from assms have r: "0 < ?days" "?days \<le> 3652059"
    by (auto simp: minus_days_def Let_def split: if_splits)
  obtain y m dd where o: "ord2ymd ?days = (y, m, dd)" by (cases "ord2ymd ?days")
  from assms r o have b: "b = d\<lparr>year := y, month := m, day := dd\<rparr>"
    by (auto simp: minus_days_def Let_def split: if_splits)
  show ?thesis
    using ord2ymd_range [OF r] unfolding o b by simp
qed

lemma search_selects_since:
  assumes "1000 \<le> year b" "year b \<le> 9999" "1 \<le> month b" "month b \<le> 12"
    "1 \<le> day b" "day b \<le> 31"
  shows "search_selects key_matches (''(SINCE '' @ strftime_d_b_Y b @ '') '' @ c) m
         = (\<not> date_before (internal_date m) b \<and> key_matches c m)"
  unfolding search_selects_def parse_since_strftime [OF assms]
  by (simp add: on_or_after_def date_before_def)

lemma reference_server_fields:
  "imap_connect (reference_server km store now) = None"
  "imap_login (reference_server km store now) = None"
  "imap_select (reference_server km store now) = None"
  "imap_logout (reference_server km store now) = None"
  "imap_now (reference_server km store now) = now"
  "imap_search (reference_server km store now) criteria
   = Inr (''OK'', map message_number (filter (search_selects km criteria) store))"
  by (simp_all add: reference_server_def)

text \<open>
  C5, amended, for Fetcher A. With a non-zero \<open>days_limit\<close> (7 in the claim) the bound is the
  current time minus that many days, and its calendar date, without the time of day, is put
  in front of the other search criteria as \<open>(SINCE dd-Mon-yyyy)\<close>. The reference server reads
  that date back from the search string, so (for a bound of the year 1000 or later, whose
  year has the four digits that the date format asks for) the run processes exactly the
  stored messages that are not dated before the calendar day of the bound and that the
  other criteria select: every message dated before that day is excluded, and a message
  dated on that day is not.
\<close>

theorem days_limit_date_bound:
  assumes days: "days_limit_A args = Some n" "n \<noteq> 0"
    and bound: "minus_days now n = Inr bound"
    and year: "1000 \<le> year bound"
  shows "search_criteria_A now args
           = Inr (''(SINCE '' @ strftime_d_b_Y bound @ '') '' @ search_criteria args)
       \<and> imap_search (reference_server key_matches store now)
             (''(SINCE '' @ strftime_d_b_Y bound @ '') '' @ search_criteria args)
           = Inr (''OK'',
                  map message_number
                    (filter (\<lambda>m. \<not> date_before (internal_date m) bound
                                  \<and> key_matches (search_criteria args) m) store))
       \<and> fst (download_pdf_attachments_A decode (reference_server key_matches store now) args w)
           = Inr (concat
                    (map (message_files_A decode (reference_server key_matches store now)
                            (output_dir_A args))
                       (map message_number
                          (filter (\<lambda>m. \<not> date_before (internal_date m) bound
                                        \<and> key_matches (search_criteria args) m) store))))"
proof -
  let ?mb = "reference_server key_matches store now"
  let ?q = "''(SINCE '' @ strftime_d_b_Y bound @ '') '' @ search_criteria args"
  let ?ids = "map message_number
                (filter (\<lambda>m. \<not> date_before (internal_date m) bound
                              \<and> key_matches (search_criteria args) m) store)"
  have v: "1000 \<le> year bound" "year bound \<le> 9999" "1 \<le> month bound" "month bound \<le> 12"
    "1 \<le> day bound" "day bound \<le> 31"
    using minus_days_valid [OF bound] year by simp_all
  have q: "search_criteria_A now args = Inr ?q"
    using days bound by (rule search_criteria_A_bound)
  have s: "imap_search ?mb ?q = Inr (''OK'', ?ids)"
    unfolding reference_server_fields search_selects_since [OF v] ..
  have q': "search_criteria_A (imap_now ?mb) args = Inr ?q"
    unfolding reference_server_fields by (rule q)
  let ?w3 = "print_line (''Found '' @ str_int (int (length ?ids)) @ '' messages matching criteria'')
               (print_line (''Successfully connected to '' @ imap_server args)
                  (ensure_output_dir (output_dir_A args) w))"
  obtain df w4 where p: "process_messages_A decode ?mb (output_dir_A args) (length ?ids) 0 ?ids []
                           ?w3 = (df, w4)"
    by (cases "process_messages_A decode ?mb (output_dir_A args) (length ?ids) 0 ?ids [] ?w3")
  have df: "df = concat (map (message_files_A decode ?mb (output_dir_A args)) ?ids)"
    using process_messages_A_downloaded
            [of decode ?mb "output_dir_A args" "length ?ids" 0 ?ids "[]" ?w3]
    unfolding p by simp
  have run: "download_pdf_attachments_A decode ?mb args w
             = (Inr df, print_line (''Downloaded '' @ str_int (int (length df)) @ '' PDF attachments'') w4)"
    unfolding download_A_after_search
                [OF reference_server_fields(1) reference_server_fields(2)
                    reference_server_fields(3) q' s]
      Let_def p reference_server_fields(4)
    by simp
  have d: "fst (download_pdf_attachments_A decode ?mb args w)
           = Inr (concat (map (message_files_A decode ?mb (output_dir_A args)) ?ids))"
    unfolding run df by simp
  show ?thesis using q s d by blast
qed

lemma week_ids:
  "map message_number
     (filter (\<lambda>m. \<not> date_before (internal_date m) (run_clock\<lparr>day := 8\<rparr>)
                   \<and> search_criteria since_args_A = ''ALL'') week_store)
   = [''2'', ''3'']"
  by (simp add: week_store_def date_before_def run_clock_def message_1_date_def since_fields)

lemma week_files:
  "message_files_A decode_ascii (reference_server km week_store run_clock)
     (output_dir_A since_args_A) ''2'' = [''pdfs/Week_20250115_180000_x.pdf'']"
  "message_files_A decode_ascii (reference_server km week_store run_clock)
     (output_dir_A since_args_A) ''3'' = [''pdfs/New_20250115_180000_x.pdf'']"
  by (simp_all add: message_files_A_def eval_defs reference_server_def week_store_def
        week_message_def run_clock_def since_args_A_def sample_args_A_def empty_world_def)

lemma week_query:
  "''(SINCE '' @ strftime_d_b_Y (run_clock\<lparr>day := 8\<rparr>) @ '') '' @ search_criteria since_args_A
   = ''(SINCE 08-Jan-2025) ALL''"
  unfolding stamp_eval since_fields by simp

theorem days_limit_date_bound_witness:
  "search_criteria_A run_clock since_args_A = Inr ''(SINCE 08-Jan-2025) ALL''
 \<and> imap_search (reference_server (\<lambda>c m. c = ''ALL'') week_store run_clock)
       ''(SINCE 08-Jan-2025) ALL''
     = Inr (''OK'', [''2'', ''3''])
 \<and> fst (download_pdf_attachments_A decode_ascii
            (reference_server (\<lambda>c m. c = ''ALL'') week_store run_clock) since_args_A empty_world)
     = Inr [''pdfs/Week_20250115_180000_x.pdf'', ''pdfs/New_20250115_180000_x.pdf'']"
proof -
  have y: "1000 \<le> year (run_clock\<lparr>day := 8\<rparr>)" by (simp add: run_clock_def)
  have n: "(7::int) \<noteq> 0" by simp
  note t = days_limit_date_bound
             [where key_matches = "\<lambda>c m. c = ''ALL''" and store = week_store
                and decode = decode_ascii and w = empty_world,
              OF since_fields(1) n bound_eval y, unfolded week_query week_ids]
  have c: "concat (map (message_files_A decode_ascii
                          (reference_server (\<lambda>c m. c = ''ALL'') week_store run_clock)
                          (output_dir_A since_args_A)) [''2'', ''3''])
           = [''pdfs/Week_20250115_180000_x.pdf'', ''pdfs/New_20250115_180000_x.pdf'']"
    by (simp add: week_files)
  show ?thesis using t unfolding c .
qed

text \<open>
  Fetcher B with a non-zero \<open>days_limit\<close>. Line 66 hands the bound, a \<open>datetime\<close>, to
  \<^verbatim>\<open>AND(date_gte=...)\<close>, which raises \<open>TypeError\<close>; the \<open>except\<close> clause of line 120 prints the
  error and the run returns the empty list, whatever the mailbox holds. Fetcher A, which
  formats the bound for the server itself, does not share this.
\<close>

lemma build_criteria_B_days_limit:
  assumes "days_limit_B args = Some n" "n \<noteq> 0"
  shows "\<exists>e. build_criteria_B now args = Inl e"
  using assms
  by (cases "minus_days now n") (simp_all add: build_criteria_B_def Let_def AND_date_gte_def)

lemma download_B_days_limit_empty:
  assumes "days_limit_B args = Some n" "n \<noteq> 0"
  shows "fst (download_pdf_attachments_B mb args w) = []"
proof -
  obtain e where c: "build_criteria_B (mb_now mb) args = Inl e"
    using build_criteria_B_days_limit [OF assms] by blast
  have "fst (snd (session_B mb args w')) = []" for w'
    by (cases "mb_connect mb"; cases "mb_login mb") (simp_all add: session_B_def Let_def c)
  note empty = this
  obtain r d w2 where s: "session_B mb args (ensure_output_dir (output_dir_B args) w) = (r, d, w2)"
    by (cases "session_B mb args (ensure_output_dir (output_dir_B args) w)")
  have "d = []" using empty [of "ensure_output_dir (output_dir_B args) w"] s by simp
  then show ?thesis
    by (simp add: download_pdf_attachments_B_def s Let_def)
qed

lemma download_B_days_limit_7:
  "download_pdf_attachments_B sample_mailbox_B (sample_args_B\<lparr>days_limit_B := Some 7\<rparr>) empty_world
   = ([], \<lparr>files = [(''out'', Directory)],
           out = [''Created directory: out'', ''Error: '' @ exn_text date_gte_type_error,
                  ''Ensure the IMAP server, email, and password are correct.'',
                  ''Downloaded 0 PDF attachments'']\<rparr>)"
  by (simp add: eval_defs date_defs AND_date_gte_def sample_mailbox_B_def sample_args_B_def
        sample_clock_def empty_world_def)

end
